theory Spec2Isabelle
  imports Main "HOL-Library.Sublist"
begin

section \<open>Data model (backend/models.py)\<close>

text \<open>
  A \<open>datetime\<close> is a number of microseconds since the epoch (Python's resolution), a
  \<open>timedelta\<close> a difference of two of them. \<open>total_seconds() / 3600\<close> compared with a
  whole number of hours is the comparison of the microseconds with that many hours, and
  \<open>.days\<close> is the floor division by a day (negative for a negative difference, as in
  Python).

  The two score columns are \<open>Float\<close> columns that may hold NULL. Every value the
  application writes into them is a whole number (100.0 and 50.0 at creation, sums and
  differences of whole numbers in the agents), so a score is an \<open>int option\<close>, \<open>None\<close>
  for NULL. Arithmetic on \<open>None\<close> raises \<open>TypeError\<close> in Python.
\<close>

type_synonym datetime = int

definition hour :: int where
  "hour = 3600000000"

definition day :: int where
  "day = 24 * hour"

datatype UserRole = ADMIN | MANAGER | USER

datatype TaskStatus = PENDING | IN_PROGRESS | COMPLETED | OVERDUE | ESCALATED

datatype TaskPriority = LOW | MEDIUM | HIGH | CRITICAL

datatype NotificationChannel = EMAIL | DESKTOP | BOTH

datatype NotificationStatus = NPENDING | SENT | FAILED | RETRYING

datatype exn = TypeError string

definition quote :: string where
  "quote = [CHR 0x27]"

text \<open>The messages of the two \<open>TypeError\<close>s that a NULL score can raise.\<close>

definition unsupported_operand :: "string \<Rightarrow> string \<Rightarrow> string \<Rightarrow> exn" where
  "unsupported_operand opr l r =
     TypeError (''unsupported operand type(s) for '' @ opr @ '': '' @ quote @ l @ quote
                @ '' and '' @ quote @ r @ quote)"

definition not_supported_between :: "string \<Rightarrow> string \<Rightarrow> string \<Rightarrow> exn" where
  "not_supported_between opr l r =
     TypeError (quote @ opr @ quote @ '' not supported between instances of '' @ quote @ l
                @ quote @ '' and '' @ quote @ r @ quote)"

fun str_exn :: "exn \<Rightarrow> string" where
  "str_exn (TypeError m) = m"

record User =
  id :: nat
  name :: string
  role :: UserRole
  is_active :: bool

record Task =
  id :: nat
  title :: string
  priority :: "TaskPriority option"
  status :: TaskStatus
  due_date :: "datetime option"
  confidence_score :: "int option"
  priority_score :: "int option"
  is_escalated :: bool
  escalated_to :: "nat option"
  assigned_to :: nat
  created_by :: nat
  created_at :: "datetime option"
  updated_at :: "datetime option"

record Notification =
  id :: nat
  type :: string
  message :: string
  channel :: NotificationChannel
  status :: NotificationStatus
  retry_count :: int
  max_retries :: int
  is_read :: bool
  scheduled_at :: "datetime option"
  sent_at :: "datetime option"
  user_id :: nat
  task_id :: "nat option"

record AuditLog =
  id :: nat
  action :: string
  entity_type :: string
  entity_id :: "nat option"
  details :: string
  agent_involved :: "string option"

record AgentStatus =
  agent_name :: string
  last_run :: "datetime option"
  tasks_processed :: int
  errors_count :: int
  last_error :: "string option"

text \<open>
  The store holds the five tables in row order and the association table
  \<open>task_dependencies\<close> of pairs (task_id, dependency_id).
\<close>

record store =
  users :: "User list"
  tasks :: "Task list"
  notifications :: "Notification list"
  audit_logs :: "AuditLog list"
  agent_status :: "AgentStatus list"
  task_dependencies :: "(nat \<times> nat) list"

text \<open>The two relationship attributes of a task, resolved against the store.\<close>

definition dependencies :: "store \<Rightarrow> Task \<Rightarrow> Task list" where
  "dependencies db task =
     filter (\<lambda>d. (Task.id task, Task.id d) \<in> set (task_dependencies db)) (tasks db)"

definition dependent_tasks :: "store \<Rightarrow> Task \<Rightarrow> Task list" where
  "dependent_tasks db task =
     filter (\<lambda>d. (Task.id d, Task.id task) \<in> set (task_dependencies db)) (tasks db)"

section \<open>The clock\<close>

text \<open>
  The agents read the time with \<open>datetime.utcnow()\<close> inside their functions. The clock
  is ambient state: a current instant and the list of the amounts by which it advances
  after each of the coming readings (it stands still once the list is used up).
\<close>

record clock =
  current :: datetime
  ticks :: "nat list"

definition utcnow :: "clock \<Rightarrow> datetime \<times> clock" where
  "utcnow c =
     (current c,
      case ticks c of [] \<Rightarrow> c
      | d # ds \<Rightarrow> c\<lparr>current := current c + int d, ticks := ds\<rparr>)"

section \<open>Planning agent: priority score (agents/planning_agent.py)\<close>

definition urgency_points :: "int \<Rightarrow> int" where
  "urgency_points time_remaining =
     (if time_remaining < 0 then 30
      else if time_remaining < 24 * hour then 25
      else if time_remaining < 48 * hour then 20
      else if time_remaining < 72 * hour then 15
      else if time_remaining < 168 * hour then 10
      else 0)"

definition priority_weights :: "TaskPriority option \<Rightarrow> int" where
  "priority_weights p =
     (case p of Some CRITICAL \<Rightarrow> 25 | Some HIGH \<Rightarrow> 20 | Some MEDIUM \<Rightarrow> 10
      | Some LOW \<Rightarrow> 5 | None \<Rightarrow> 10)"

text \<open>Section 1 of the function body: due date urgency, one reading of the clock.\<close>

definition due_date_urgency :: "Task \<Rightarrow> int \<Rightarrow> clock \<Rightarrow> int \<times> clock" where
  "due_date_urgency task score c =
     (case due_date task of
        None \<Rightarrow> (score, c)
      | Some due \<Rightarrow> (score + urgency_points (due - fst (utcnow c)), snd (utcnow c)))"

text \<open>Section 4: task age, a second reading of the clock.\<close>

definition task_age :: "Task \<Rightarrow> int \<Rightarrow> clock \<Rightarrow> int \<times> clock" where
  "task_age task score c =
     (case Task.created_at task of
        None \<Rightarrow> (score, c)
      | Some created \<Rightarrow>
          (score + min ((fst (utcnow c) - created) div day) 10, snd (utcnow c)))"

definition calculate_priority_score :: "store \<Rightarrow> Task \<Rightarrow> clock \<Rightarrow> int \<times> clock" where
  "calculate_priority_score db task c0 =
     (let score = 50;
          (score, c1) = due_date_urgency task score c0;
          score = score + priority_weights (priority task);
          dependent_count = int (length (dependent_tasks db task));
          score = score + min (dependent_count * 5) 15;
          (score, c2) = task_age task score c1
      in (min score 100, c2))"

section \<open>Risk agent: confidence score (agents/risk_agent.py)\<close>

definition time_factor :: "int \<Rightarrow> int" where
  "time_factor time_remaining =
     (if time_remaining < 0 then 40
      else if time_remaining < 8 * hour then 30
      else if time_remaining < 24 * hour then 20
      else if time_remaining < 48 * hour then 10
      else 0)"

text \<open>
  The loop over \<open>task.dependencies\<close>: it carries the score and the number of
  incomplete dependencies; \<open>dep.confidence_score < 50\<close> raises on NULL.
\<close>

fun dependency_loop :: "Task list \<Rightarrow> int \<Rightarrow> int \<Rightarrow> exn + (int \<times> int)" where
  "dependency_loop [] score incomplete_deps = Inr (score, incomplete_deps)"
| "dependency_loop (dep # deps) score incomplete_deps =
     (if Task.status dep \<noteq> COMPLETED then
        (case confidence_score dep of
           None \<Rightarrow>
             Inl (not_supported_between ''<'' ''NoneType'' ''int'')
         | Some cs \<Rightarrow>
             dependency_loop deps (if cs < 50 then score - 10 else score) (incomplete_deps + 1))
      else dependency_loop deps score incomplete_deps)"

definition dependency_risk :: "Task list \<Rightarrow> int \<Rightarrow> exn + int" where
  "dependency_risk deps score =
     (case dependency_loop deps score 0 of
        Inl e \<Rightarrow> Inl e
      | Inr (score', incomplete_deps) \<Rightarrow> Inr (score' - min (incomplete_deps * 10) 30))"

definition priority_risk :: "TaskPriority option \<Rightarrow> int" where
  "priority_risk p = (if p = Some CRITICAL then 10 else if p = Some HIGH then 5 else 0)"

text \<open>Section 1: time factor, one reading of the clock.\<close>

definition time_risk :: "Task \<Rightarrow> int \<Rightarrow> clock \<Rightarrow> int \<times> clock" where
  "time_risk task score c =
     (case due_date task of
        None \<Rightarrow> (score, c)
      | Some due \<Rightarrow> (score - time_factor (due - fst (utcnow c)), snd (utcnow c)))"

text \<open>Section 4: status factor, a second reading of the clock for a pending task.\<close>

definition status_factor :: "Task \<Rightarrow> int \<Rightarrow> clock \<Rightarrow> int \<times> clock" where
  "status_factor task score c =
     (if Task.status task = PENDING then
        (case due_date task of
           None \<Rightarrow> (score, c)
         | Some due \<Rightarrow>
             (let days_until_due = (due - fst (utcnow c)) div day
              in (if days_until_due < 2 \<and> priority task \<in> {Some HIGH, Some CRITICAL}
                  then score - 15 else score, snd (utcnow c))))
      else (score, c))"

definition calculate_confidence_score ::
  "store \<Rightarrow> Task \<Rightarrow> clock \<Rightarrow> (exn + int) \<times> clock" where
  "calculate_confidence_score db task c0 =
     (let score = 100;
          (score, c1) = time_risk task score c0
      in case dependency_risk (dependencies db task) score of
           Inl e \<Rightarrow> (Inl e, c1)
         | Inr score \<Rightarrow>
             (let score = score - priority_risk (priority task);
                  (score, c2) = status_factor task score c1
              in (Inr (max 0 (min 100 score)), c2)))"

section \<open>Text\<close>

text \<open>
  Strings are byte lists; the symbols that open the agents' messages are written as
  their UTF-8 bytes. \<open>str_nat\<close> and \<open>str_int\<close> are Python's \<open>str\<close> on whole numbers;
  \<open>format_1f\<close> and \<open>format_0f\<close> are the formats \<open>:.1f\<close> and \<open>:.0f\<close> on a float that
  holds a whole number.
\<close>

definition digit :: "nat \<Rightarrow> char" where
  "digit n = ''0123456789'' ! (n mod 10)"

function str_nat :: "nat \<Rightarrow> string" where
  "str_nat n = (if n < 10 then [digit n] else str_nat (n div 10) @ [digit n])"
  by pat_completeness auto
termination
  by (relation "measure (\<lambda>n. n)") auto

definition str_int :: "int \<Rightarrow> string" where
  "str_int i = (if i < 0 then ''-'' @ str_nat (nat (- i)) else str_nat (nat i))"

definition format_1f :: "int \<Rightarrow> string" where
  "format_1f x = str_int x @ ''.0''"

definition format_0f :: "int \<Rightarrow> string" where
  "format_0f x = str_int x"

text \<open>
  The format \<open>:.1f\<close> of a number of hours given in microseconds: the tenths of an hour,
  rounded to the nearest. At an exact tie (an odd multiple of 180 seconds) this
  definition takes the even tenth, whereas Python rounds the binary float of the quotient,
  which lies just above or just below the tie; there the last digit of the rendered
  reason can differ from Python's. Only the wording of the escalation reason depends on
  it, and no statement below reads that wording.
\<close>

definition format_hours_1f :: "int \<Rightarrow> string" where
  "format_hours_1f d =
     (let u = hour div 10; q = d div u; r = d mod u;
          tenths = (if 2 * r < u then q else if u < 2 * r then q + 1
                    else if even q then q else q + 1)
      in str_int (tenths div 10) @ ''.'' @ str_nat (nat (tenths mod 10)))"

definition police_light :: string where
  "police_light = [CHR 0xF0, CHR 0x9F, CHR 0x9A, CHR 0xA8]"

definition loudspeaker :: string where
  "loudspeaker = [CHR 0xF0, CHR 0x9F, CHR 0x93, CHR 0xA2]"

definition warning_sign :: string where
  "warning_sign = [CHR 0xE2, CHR 0x9A, CHR 0xA0, CHR 0xEF, CHR 0xB8, CHR 0x8F]"

definition red_circle :: string where
  "red_circle = [CHR 0xF0, CHR 0x9F, CHR 0x94, CHR 0xB4]"

definition yellow_circle :: string where
  "yellow_circle = [CHR 0xF0, CHR 0x9F, CHR 0x9F, CHR 0xA1]"

definition bell :: string where
  "bell = [CHR 0xF0, CHR 0x9F, CHR 0x94, CHR 0x94]"

text \<open>
  The column operator \<open>contains\<close> (SQL \<open>LIKE\<close> with the pattern between two wildcards):
  the pattern occurs in the text as a run of consecutive characters.
\<close>

fun starts_with :: "string \<Rightarrow> string \<Rightarrow> bool" where
  "starts_with s [] = True"
| "starts_with [] (p # ps) = False"
| "starts_with (c # cs) (p # ps) = (c = p \<and> starts_with cs ps)"

fun contains :: "string \<Rightarrow> string \<Rightarrow> bool" where
  "contains [] pat = (pat = [])"
| "contains (c # cs) pat = (starts_with (c # cs) pat \<or> contains cs pat)"

section \<open>The session (SQLAlchemy unit of work)\<close>

text \<open>
  An agent cycle opens a session with \<open>SessionLocal()\<close>, reads and changes objects
  through it, and calls \<open>db.commit()\<close> and \<open>db.close()\<close>. The module that configures
  \<open>SessionLocal\<close> is not part of the sources, so its \<open>autoflush\<close> setting is a
  parameter. The session holds
  \<^item> \<open>view\<close>: the rows as the session sees them, changes to loaded objects included;
  \<^item> the objects given to \<open>db.add\<close> and not yet flushed. A query sees them only after
    a flush, which happens at \<open>commit\<close> and, with \<open>autoflush\<close>, before every query.
  The database itself changes at \<open>commit\<close> only; \<open>close\<close> drops what was not committed.
  New rows get the next free primary key, in the order of the \<open>db.add\<close> calls.
  Not modelled: the insert and update hooks of the timestamp columns (\<open>created_at\<close>,
  \<open>timestamp\<close>, \<open>updated_at\<close>), the log output, and failures of the database itself.
\<close>

record session =
  autoflush :: bool
  view :: store
  pending_notifications :: "Notification list"
  pending_audit_logs :: "AuditLog list"

record world =
  database :: store
  clock :: clock

definition SessionLocal :: "bool \<Rightarrow> world \<Rightarrow> session" where
  "SessionLocal af w =
     \<lparr>autoflush = af, view = database w, pending_notifications = [], pending_audit_logs = []\<rparr>"

definition next_id :: "nat list \<Rightarrow> nat" where
  "next_id ids = Suc (fold max ids 0)"

definition flush :: "session \<Rightarrow> session" where
  "flush s =
     s\<lparr>view := (view s)\<lparr>notifications := notifications (view s) @ pending_notifications s,
                         audit_logs := audit_logs (view s) @ pending_audit_logs s\<rparr>,
       pending_notifications := [], pending_audit_logs := []\<rparr>"

definition autoflushed :: "session \<Rightarrow> session" where
  "autoflushed s = (if autoflush s then flush s else s)"

definition commit :: "session \<Rightarrow> world \<Rightarrow> session \<times> world" where
  "commit s w = (flush s, w\<lparr>database := view (flush s)\<rparr>)"

definition new_notification ::
  "string \<Rightarrow> string \<Rightarrow> NotificationChannel \<Rightarrow> nat \<Rightarrow> nat option \<Rightarrow> datetime option
   \<Rightarrow> Notification" where
  "new_notification ty msg ch uid tid sched =
     \<lparr>Notification.id = 0, type = ty, message = msg, channel = ch, status = NPENDING,
      retry_count = 0, max_retries = 3, is_read = False, scheduled_at = sched,
      sent_at = None, user_id = uid, task_id = tid\<rparr>"

definition new_audit_log ::
  "string \<Rightarrow> string \<Rightarrow> nat \<Rightarrow> string \<Rightarrow> string \<Rightarrow> AuditLog" where
  "new_audit_log act ety eid agent det =
     \<lparr>AuditLog.id = 0, action = act, entity_type = ety, entity_id = Some eid,
      details = det, agent_involved = Some agent\<rparr>"

definition add_notification :: "Notification \<Rightarrow> session \<Rightarrow> session" where
  "add_notification n s =
     s\<lparr>pending_notifications := pending_notifications s
         @ [n\<lparr>Notification.id :=
                next_id (map Notification.id (notifications (view s) @ pending_notifications s))\<rparr>]\<rparr>"

definition add_audit_log :: "AuditLog \<Rightarrow> session \<Rightarrow> session" where
  "add_audit_log a s =
     s\<lparr>pending_audit_logs := pending_audit_logs s
         @ [a\<lparr>AuditLog.id :=
                next_id (map AuditLog.id (audit_logs (view s) @ pending_audit_logs s))\<rparr>]\<rparr>"

text \<open>Writing the attributes of a loaded object: the row with its primary key.\<close>

definition save_task :: "Task \<Rightarrow> session \<Rightarrow> session" where
  "save_task t s =
     s\<lparr>view := (view s)\<lparr>tasks :=
         map (\<lambda>x. if Task.id x = Task.id t then t else x) (tasks (view s))\<rparr>\<rparr>"

definition save_notification :: "Notification \<Rightarrow> session \<Rightarrow> session" where
  "save_notification n s =
     s\<lparr>view := (view s)\<lparr>notifications :=
         map (\<lambda>x. if Notification.id x = Notification.id n then n else x)
           (notifications (view s))\<rparr>\<rparr>"

definition save_agent_status :: "AgentStatus \<Rightarrow> session \<Rightarrow> session" where
  "save_agent_status a s =
     s\<lparr>view := (view s)\<lparr>agent_status :=
         map (\<lambda>x. if agent_name x = agent_name a then a else x) (agent_status (view s))\<rparr>\<rparr>"

section \<open>The frame of an agent cycle\<close>

text \<open>
  A \<open>for\<close> loop whose body may raise: the exception ends the loop and leaves the state
  as it was when it was raised.
\<close>

fun for_loop ::
  "('a \<Rightarrow> 'st \<Rightarrow> (exn + unit) \<times> 'st) \<Rightarrow> 'a list \<Rightarrow> 'st \<Rightarrow> (exn + unit) \<times> 'st" where
  "for_loop body [] st = (Inr (), st)"
| "for_loop body (x # xs) st =
     (case body x st of
        (Inl e, st') \<Rightarrow> (Inl e, st')
      | (Inr u, st') \<Rightarrow> for_loop body xs st')"

text \<open>
  The end of the \<open>try\<close> block of every \<open>run\<close>: commit, then, if the agent has a status
  row, set \<open>last_run\<close>, add to \<open>tasks_processed\<close> and commit again.
\<close>

definition record_success :: "string \<Rightarrow> int \<Rightarrow> session \<Rightarrow> world \<Rightarrow> session \<times> world" where
  "record_success agent processed s w =
     (let (s1, w1) = commit s w;
          s2 = autoflushed s1
      in case find (\<lambda>a. agent_name a = agent) (agent_status (view s2)) of
           None \<Rightarrow> (s2, w1)
         | Some a \<Rightarrow>
             (let (now, c) = utcnow (clock w1)
              in commit
                   (save_agent_status
                      (a\<lparr>last_run := Some now,
                         tasks_processed := tasks_processed a + processed\<rparr>) s2)
                   (w1\<lparr>clock := c\<rparr>)))"

text \<open>
  The \<open>except Exception\<close> block of every \<open>run\<close>: if the agent has a status row, count the
  error, keep its message and commit. There is no rollback before that commit.
\<close>

definition record_error :: "string \<Rightarrow> exn \<Rightarrow> session \<Rightarrow> world \<Rightarrow> session \<times> world" where
  "record_error agent e s w =
     (let s1 = autoflushed s
      in case find (\<lambda>a. agent_name a = agent) (agent_status (view s1)) of
           None \<Rightarrow> (s1, w)
         | Some a \<Rightarrow>
             commit
               (save_agent_status
                  (a\<lparr>errors_count := errors_count a + 1, last_error := Some (str_exn e)\<rparr>) s1)
               w)"

text \<open>
  \<open>run\<close>: open a session, run the \<open>try\<close> block, handle its exception, close the session.
  The first component of the result is the exception that reaches the caller, if any.
\<close>

definition agent_run ::
  "string \<Rightarrow> (session \<Rightarrow> world \<Rightarrow> (exn + unit) \<times> session \<times> world) \<Rightarrow> bool \<Rightarrow> world
   \<Rightarrow> exn option \<times> world" where
  "agent_run agent try_block af w =
     (case try_block (SessionLocal af w) w of
        (Inr u, s, w') \<Rightarrow> (None, w')
      | (Inl e, s, w') \<Rightarrow> (None, snd (record_error agent e s w')))"

section \<open>Planning agent: the cycle (agents/planning_agent.py, run)\<close>

definition active_tasks :: "store \<Rightarrow> Task list" where
  "active_tasks db = filter (\<lambda>t. Task.status t \<in> {PENDING, IN_PROGRESS}) (tasks db)"

text \<open>
  The body of the loop over the active tasks. The loop state is the session and the
  clock. (The counters that only feed the log line are left out.) Reading the
  relationship of a task loads it through the session, after an autoflush.
\<close>

definition planning_step :: "Task \<Rightarrow> session \<times> clock \<Rightarrow> (exn + unit) \<times> session \<times> clock" where
  "planning_step task st =
     (let s = autoflushed (fst st);
          old_score = priority_score task;
          new_score = fst (calculate_priority_score (view s) task (snd st));
          c1 = snd (calculate_priority_score (view s) task (snd st))
      in case old_score of
           None \<Rightarrow> (Inl (unsupported_operand ''-'' ''NoneType'' ''float''), s, c1)
         | Some old \<Rightarrow>
             if 1 < \<bar>old - new_score\<bar> then
               (let s1 = save_task (task\<lparr>priority_score := Some new_score\<rparr>) s;
                    s2 = (if 10 < new_score - old then
                            add_audit_log
                              (new_audit_log ''priority_increased'' ''task'' (Task.id task)
                                 ''PlanningAgent''
                                 (''Priority score increased from '' @ format_1f old
                                  @ '' to '' @ format_1f new_score)) s1
                          else s1)
                in (Inr (), s2, c1))
             else (Inr (), s, c1))"

definition planning_try :: "session \<Rightarrow> world \<Rightarrow> (exn + unit) \<times> session \<times> world" where
  "planning_try s w =
     (let s0 = autoflushed s;
          tasks = active_tasks (view s0)
      in case for_loop planning_step tasks (s0, clock w) of
           (Inl e, s1, c1) \<Rightarrow> (Inl e, s1, w\<lparr>clock := c1\<rparr>)
         | (Inr u, s1, c1) \<Rightarrow>
             (Inr (), record_success ''PlanningAgent'' (int (length tasks)) s1
                        (w\<lparr>clock := c1\<rparr>)))"

definition PlanningAgent_run :: "bool \<Rightarrow> world \<Rightarrow> exn option \<times> world" where
  "PlanningAgent_run = agent_run ''PlanningAgent'' planning_try"

section \<open>Risk agent: the cycle (agents/risk_agent.py, run)\<close>

definition low_confidence_threshold :: int where
  "low_confidence_threshold = 40"

definition risk_step :: "Task \<Rightarrow> session \<times> clock \<Rightarrow> (exn + unit) \<times> session \<times> clock" where
  "risk_step task st =
     (let s = autoflushed (fst st);
          old_score = confidence_score task;
          r = fst (calculate_confidence_score (view s) task (snd st));
          c1 = snd (calculate_confidence_score (view s) task (snd st))
      in case r of
           Inl e \<Rightarrow> (Inl e, s, c1)
         | Inr new_score \<Rightarrow>
             (case old_score of
                None \<Rightarrow> (Inl (unsupported_operand ''-'' ''NoneType'' ''float''), s, c1)
              | Some old \<Rightarrow>
                  if 2 < \<bar>old - new_score\<bar> then
                    (let s1 = save_task (task\<lparr>confidence_score := Some new_score\<rparr>) s;
                         s2 = (if new_score < low_confidence_threshold
                                  \<and> low_confidence_threshold \<le> old then
                                 add_notification
                                   (new_notification ''alert''
                                      (warning_sign @ '' Task '' @ quote @ title task @ quote
                                       @ '' has been flagged as HIGH RISK (Confidence: ''
                                       @ format_0f new_score @ ''%)'')
                                      DESKTOP (assigned_to task) (Some (Task.id task)) None)
                                   (add_audit_log
                                      (new_audit_log ''high_risk_detected'' ''task''
                                         (Task.id task) ''RiskAgent''
                                         (''Task '' @ quote @ title task @ quote
                                          @ '' dropped to high-risk status. Confidence: ''
                                          @ format_1f new_score @ ''%'')) s1)
                               else s1)
                     in (Inr (), s2, c1))
                  else (Inr (), s, c1)))"

definition risk_try :: "session \<Rightarrow> world \<Rightarrow> (exn + unit) \<times> session \<times> world" where
  "risk_try s w =
     (let s0 = autoflushed s;
          tasks = active_tasks (view s0)
      in case for_loop risk_step tasks (s0, clock w) of
           (Inl e, s1, c1) \<Rightarrow> (Inl e, s1, w\<lparr>clock := c1\<rparr>)
         | (Inr u, s1, c1) \<Rightarrow>
             (Inr (), record_success ''RiskAgent'' (int (length tasks)) s1
                        (w\<lparr>clock := c1\<rparr>)))"

definition RiskAgent_run :: "bool \<Rightarrow> world \<Rightarrow> exn option \<times> world" where
  "RiskAgent_run = agent_run ''RiskAgent'' risk_try"

section \<open>Escalation agent (agents/escalation_agent.py)\<close>

definition escalation_threshold_hours :: int where
  "escalation_threshold_hours = 0"

definition confidence_escalation_threshold :: int where
  "confidence_escalation_threshold = 30"

text \<open>
  The overdue test of \<open>should_escalate\<close>: one reading of the clock for the comparison
  with the due date and, if the task is overdue, a second one for the hours overdue.
\<close>

definition overdue_check :: "Task \<Rightarrow> clock \<Rightarrow> string option \<times> clock" where
  "overdue_check task c =
     (case due_date task of
        None \<Rightarrow> (None, c)
      | Some due \<Rightarrow>
          if due < fst (utcnow c) then
            (let c1 = snd (utcnow c);
                 hours_overdue = fst (utcnow c1) - due
             in (if escalation_threshold_hours * hour < hours_overdue
                 then Some (''Overdue by '' @ format_hours_1f hours_overdue @ '' hours'')
                 else None, snd (utcnow c1)))
          else (None, snd (utcnow c)))"

text \<open>The test for a task in progress without update, a further reading of the clock.\<close>

definition stale_check :: "Task \<Rightarrow> clock \<Rightarrow> string option \<times> clock" where
  "stale_check task c =
     (if Task.status task = IN_PROGRESS then
        (case updated_at task of
           None \<Rightarrow> (None, c)
         | Some upd \<Rightarrow>
             (let days_since_update = (fst (utcnow c) - upd) div day
              in (if 3 \<le> days_since_update
                  then Some (''No progress for '' @ str_int days_since_update @ '' days'')
                  else None, snd (utcnow c))))
      else (None, c))"

definition should_escalate :: "Task \<Rightarrow> clock \<Rightarrow> (exn + bool \<times> string option) \<times> clock" where
  "should_escalate task c =
     (if is_escalated task then (Inr (False, None), c)
      else if Task.status task = COMPLETED then (Inr (False, None), c)
      else
        (case fst (overdue_check task c) of
           Some reason \<Rightarrow> (Inr (True, Some reason), snd (overdue_check task c))
         | None \<Rightarrow>
             (let c1 = snd (overdue_check task c)
              in case confidence_score task of
                   None \<Rightarrow> (Inl (not_supported_between ''<'' ''NoneType'' ''float''), c1)
                 | Some cs \<Rightarrow>
                     if cs < confidence_escalation_threshold then
                       (Inr (True, Some (''Critically low confidence score (''
                                         @ format_0f cs @ ''%)'')), c1)
                     else
                       (case fst (stale_check task c1) of
                          Some reason \<Rightarrow> (Inr (True, Some reason), snd (stale_check task c1))
                        | None \<Rightarrow> (Inr (False, None), snd (stale_check task c1))))))"

definition find_manager_to_escalate_to :: "store \<Rightarrow> User option" where
  "find_manager_to_escalate_to db =
     (case find (\<lambda>u. role u = MANAGER \<and> is_active u) (users db) of
        Some manager \<Rightarrow> Some manager
      | None \<Rightarrow> find (\<lambda>u. role u = ADMIN \<and> is_active u) (users db))"

definition escalate_task :: "Task \<Rightarrow> string \<Rightarrow> User \<Rightarrow> session \<Rightarrow> session" where
  "escalate_task task reason manager s =
     (let s1 = save_task (task\<lparr>is_escalated := True, escalated_to := Some (User.id manager),
                               Task.status := ESCALATED\<rparr>) s;
          s2 = add_notification
                 (new_notification ''escalation''
                    (police_light @ '' ESCALATED: Task '' @ quote @ title task @ quote
                     @ '' requires attention. Reason: '' @ reason)
                    BOTH (User.id manager) (Some (Task.id task)) None) s1;
          s3 = (if assigned_to task \<noteq> User.id manager then
                  add_notification
                    (new_notification ''escalation''
                       (loudspeaker @ '' Your task '' @ quote @ title task @ quote
                        @ '' has been escalated to '' @ name manager @ ''. Reason: '' @ reason)
                       DESKTOP (assigned_to task) (Some (Task.id task)) None) s2
                else s2)
      in add_audit_log
           (new_audit_log ''task_escalated'' ''task'' (Task.id task) ''EscalationAgent''
              (''Task escalated to '' @ name manager @ ''. Reason: '' @ reason)) s3)"

definition escalation_candidates :: "store \<Rightarrow> Task list" where
  "escalation_candidates db =
     filter (\<lambda>t. \<not> is_escalated t \<and> Task.status t \<in> {PENDING, IN_PROGRESS, OVERDUE})
       (tasks db)"

definition escalation_step :: "Task \<Rightarrow> session \<times> clock \<Rightarrow> (exn + unit) \<times> session \<times> clock" where
  "escalation_step task st =
     (case fst (should_escalate task (snd st)) of
        Inl e \<Rightarrow> (Inl e, fst st, snd (should_escalate task (snd st)))
      | Inr (should, reason) \<Rightarrow>
          (let c1 = snd (should_escalate task (snd st))
           in if should then
                (let s = autoflushed (fst st)
                 in case find_manager_to_escalate_to (view s) of
                      None \<Rightarrow> (Inr (), s, c1)
                    | Some manager \<Rightarrow>
                        (Inr (), escalate_task task (case reason of None \<Rightarrow> ''None''
                                                     | Some r \<Rightarrow> r) manager s, c1))
              else (Inr (), fst st, c1)))"

definition escalation_try :: "session \<Rightarrow> world \<Rightarrow> (exn + unit) \<times> session \<times> world" where
  "escalation_try s w =
     (let s0 = autoflushed s;
          tasks = escalation_candidates (view s0)
      in case for_loop escalation_step tasks (s0, clock w) of
           (Inl e, s1, c1) \<Rightarrow> (Inl e, s1, w\<lparr>clock := c1\<rparr>)
         | (Inr u, s1, c1) \<Rightarrow>
             (Inr (), record_success ''EscalationAgent'' (int (length tasks)) s1
                        (w\<lparr>clock := c1\<rparr>)))"

definition EscalationAgent_run :: "bool \<Rightarrow> world \<Rightarrow> exn option \<times> world" where
  "EscalationAgent_run = agent_run ''EscalationAgent'' escalation_try"

text \<open>Several escalation passes, one after the other.\<close>

fun escalation_passes :: "nat \<Rightarrow> bool \<Rightarrow> world \<Rightarrow> world" where
  "escalation_passes 0 af w = w"
| "escalation_passes (Suc n) af w = escalation_passes n af (snd (EscalationAgent_run af w))"

section \<open>Notification agent (agents/notification_agent.py)\<close>

definition reminder_hours :: "int list" where
  "reminder_hours = [24, 8, 2]"

text \<open>
  \<open>create_reminder\<close>: the reminder to add for a task and an offset in hours, or \<open>None\<close>
  when the query finds a reminder of this task whose message contains the offset
  followed by \<open>hour\<close>. The subtraction from the due date raises when there is none.
\<close>

definition create_reminder ::
  "Task \<Rightarrow> int \<Rightarrow> session \<Rightarrow> (exn + Notification option) \<times> session" where
  "create_reminder task hours_before s0 =
     (let s = autoflushed s0;
          existing = find (\<lambda>n. task_id n = Some (Task.id task) \<and> type n = ''reminder''
                                \<and> contains (message n) (str_int hours_before @ '' hour''))
                       (notifications (view s))
      in case existing of
           Some n \<Rightarrow> (Inr None, s)
         | None \<Rightarrow>
             (let urgency = (if hours_before = 1 then red_circle @ '' URGENT''
                             else if hours_before \<le> 8 then yellow_circle @ '' WARNING''
                             else bell @ '' REMINDER'')
              in case due_date task of
                   None \<Rightarrow>
                     (Inl (unsupported_operand ''-'' ''NoneType'' ''datetime.timedelta''), s)
                 | Some due \<Rightarrow>
                     (Inr (Some (new_notification ''reminder''
                                   (urgency @ '': Task '' @ quote @ title task @ quote
                                    @ '' is due in '' @ str_int hours_before @ '' hours!'')
                                   DESKTOP (assigned_to task) (Some (Task.id task))
                                   (Some (due - hours_before * hour)))), s)))"

text \<open>
  The body of the inner loop of \<open>schedule_upcoming_reminders\<close>, for one task and one
  offset; the state is the session and the number of reminders created.
\<close>

definition reminder_step ::
  "datetime \<Rightarrow> Task \<Rightarrow> int \<Rightarrow> session \<times> int \<Rightarrow> (exn + unit) \<times> session \<times> int" where
  "reminder_step now task reminder_hour st =
     (case due_date task of
        None \<Rightarrow> (Inl (unsupported_operand ''-'' ''NoneType'' ''datetime.datetime''), st)
      | Some due \<Rightarrow>
          (let hours_until_due = due - now
           in if hours_until_due \<le> reminder_hour * hour
                 \<and> (reminder_hour - 1) * hour < hours_until_due then
                (case fst (create_reminder task reminder_hour (fst st)) of
                   Inl e \<Rightarrow> (Inl e, snd (create_reminder task reminder_hour (fst st)), snd st)
                 | Inr None \<Rightarrow>
                     (Inr (), snd (create_reminder task reminder_hour (fst st)), snd st)
                 | Inr (Some notification) \<Rightarrow>
                     (Inr (),
                      add_notification notification
                        (snd (create_reminder task reminder_hour (fst st))),
                      snd st + 1))
              else (Inr (), st)))"

definition upcoming_tasks :: "datetime \<Rightarrow> store \<Rightarrow> Task list" where
  "upcoming_tasks now db =
     filter (\<lambda>t. Task.status t \<in> {PENDING, IN_PROGRESS}
                 \<and> (case due_date t of
                       None \<Rightarrow> False
                     | Some due \<Rightarrow>
                         now < due
                         \<and> due \<le> now + (fold max (tl reminder_hours) (hd reminder_hours) + 1)
                                         * hour))
       (tasks db)"

definition schedule_upcoming_reminders ::
  "session \<Rightarrow> clock \<Rightarrow> (exn + int) \<times> session \<times> clock" where
  "schedule_upcoming_reminders s c =
     (let now = fst (utcnow c);
          s0 = autoflushed s;
          tasks = upcoming_tasks now (view s0)
      in case for_loop (\<lambda>task. for_loop (reminder_step now task) reminder_hours) tasks (s0, 0) of
           (Inl e, s1, created_count) \<Rightarrow> (Inl e, s1, snd (utcnow c))
         | (Inr u, s1, created_count) \<Rightarrow> (Inr created_count, s1, snd (utcnow c)))"

text \<open>A \<open>try\<close> statement with one \<open>except Exception\<close> clause.\<close>

definition try_except ::
  "('st \<Rightarrow> (exn + unit) \<times> 'st) \<Rightarrow> (exn \<Rightarrow> 'st \<Rightarrow> (exn + unit) \<times> 'st) \<Rightarrow> 'st
   \<Rightarrow> (exn + unit) \<times> 'st" where
  "try_except body handler st =
     (case body st of
        (Inl e, st') \<Rightarrow> handler e st'
      | (Inr u, st') \<Rightarrow> (Inr u, st'))"

text \<open>
  \<open>process_scheduled_notifications\<close>. The \<open>try\<close> block of its loop marks the notification
  as sent ("simulate sending"); nothing in it can raise. The \<open>except\<close> block works on
  the object as the \<open>try\<close> block left it.
\<close>

definition send_try :: "datetime \<Rightarrow> Notification \<Rightarrow> session \<times> int \<Rightarrow> (exn + unit) \<times> session \<times> int" where
  "send_try now notification st =
     (Inr (),
      save_notification (notification\<lparr>Notification.status := SENT, sent_at := Some now\<rparr>) (fst st),
      snd st + 1)"

definition send_except ::
  "Notification \<Rightarrow> exn \<Rightarrow> session \<times> int \<Rightarrow> (exn + unit) \<times> session \<times> int" where
  "send_except notification e st =
     (case find (\<lambda>x. Notification.id x = Notification.id notification)
             (notifications (view (fst st))) of
        None \<Rightarrow> (Inr (), st)
      | Some cur \<Rightarrow>
          (Inr (),
           save_notification
             (cur\<lparr>Notification.status := FAILED, retry_count := retry_count cur + 1\<rparr>) (fst st),
           snd st))"

definition due_notifications :: "datetime \<Rightarrow> store \<Rightarrow> Notification list" where
  "due_notifications now db =
     filter (\<lambda>n. Notification.status n = NPENDING
                 \<and> (case scheduled_at n of None \<Rightarrow> False | Some t \<Rightarrow> t \<le> now))
       (notifications db)"

definition process_scheduled_notifications ::
  "session \<Rightarrow> clock \<Rightarrow> (exn + int) \<times> session \<times> clock" where
  "process_scheduled_notifications s c =
     (let now = fst (utcnow c);
          s0 = autoflushed s;
          pending = due_notifications now (view s0)
      in case for_loop (\<lambda>n. try_except (send_try now n) (send_except n)) pending (s0, 0) of
           (Inl e, s1, sent_count) \<Rightarrow> (Inl e, s1, snd (utcnow c))
         | (Inr u, s1, sent_count) \<Rightarrow> (Inr sent_count, s1, snd (utcnow c)))"

text \<open>
  \<open>retry_failed_notifications\<close>. The \<open>try\<close> block sets the status to retrying, then to
  sent, reads the clock for \<open>sent_at\<close> and adds an audit entry; nothing in it can raise.
  (The local counter \<open>retry_count\<close> of the source is called \<open>retried\<close> here, the column
  keeps the name.)
\<close>

definition retry_try ::
  "Notification \<Rightarrow> session \<times> clock \<times> int \<Rightarrow> (exn + unit) \<times> session \<times> clock \<times> int" where
  "retry_try notification st =
     (let s = fst st; c = fst (snd st);
          n1 = notification\<lparr>Notification.status := RETRYING\<rparr>;
          n2 = n1\<lparr>Notification.status := SENT, sent_at := Some (fst (utcnow c))\<rparr>
      in (Inr (),
          add_audit_log
            (new_audit_log ''notification_retry_success'' ''notification''
               (Notification.id notification) ''NotificationAgent''
               (''Notification sent after '' @ str_int (retry_count notification)
                @ '' retries''))
            (save_notification n2 s),
          snd (utcnow c), snd (snd st) + 1))"

definition retry_except ::
  "Notification \<Rightarrow> exn \<Rightarrow> session \<times> clock \<times> int \<Rightarrow> (exn + unit) \<times> session \<times> clock \<times> int" where
  "retry_except notification e st =
     (case find (\<lambda>x. Notification.id x = Notification.id notification)
             (notifications (view (fst st))) of
        None \<Rightarrow> (Inr (), st)
      | Some cur \<Rightarrow>
          (let n1 = cur\<lparr>retry_count := retry_count cur + 1\<rparr>
           in if max_retries n1 \<le> retry_count n1 then
                (Inr (),
                 add_audit_log
                   (new_audit_log ''notification_permanently_failed'' ''notification''
                      (Notification.id notification) ''NotificationAgent''
                      (''Notification failed after '' @ str_int (max_retries n1)
                       @ '' retries''))
                   (save_notification (n1\<lparr>Notification.status := FAILED\<rparr>) (fst st)),
                 snd st)
              else (Inr (), save_notification n1 (fst st), snd st)))"

definition retryable_notifications :: "store \<Rightarrow> Notification list" where
  "retryable_notifications db =
     filter (\<lambda>n. Notification.status n = FAILED \<and> retry_count n < max_retries n)
       (notifications db)"

definition retry_failed_notifications ::
  "session \<Rightarrow> clock \<Rightarrow> (exn + int) \<times> session \<times> clock" where
  "retry_failed_notifications s c =
     (let s0 = autoflushed s;
          failed = retryable_notifications (view s0)
      in case for_loop (\<lambda>n. try_except (retry_try n) (retry_except n)) failed (s0, c, 0) of
           (Inl e, s1, c1, retried) \<Rightarrow> (Inl e, s1, c1)
         | (Inr u, s1, c1, retried) \<Rightarrow> (Inr retried, s1, c1))"

definition notification_try :: "session \<Rightarrow> world \<Rightarrow> (exn + unit) \<times> session \<times> world" where
  "notification_try s w =
     (case schedule_upcoming_reminders s (clock w) of
        (Inl e, s1, c1) \<Rightarrow> (Inl e, s1, w\<lparr>clock := c1\<rparr>)
      | (Inr scheduled, s1, c1) \<Rightarrow>
          (case process_scheduled_notifications s1 c1 of
             (Inl e, s2, c2) \<Rightarrow> (Inl e, s2, w\<lparr>clock := c2\<rparr>)
           | (Inr sent, s2, c2) \<Rightarrow>
               (case retry_failed_notifications s2 c2 of
                  (Inl e, s3, c3) \<Rightarrow> (Inl e, s3, w\<lparr>clock := c3\<rparr>)
                | (Inr retried, s3, c3) \<Rightarrow>
                    (Inr (), record_success ''NotificationAgent'' (sent + retried) s3
                               (w\<lparr>clock := c3\<rparr>)))))"

definition NotificationAgent_run :: "bool \<Rightarrow> world \<Rightarrow> exn option \<times> world" where
  "NotificationAgent_run = agent_run ''NotificationAgent'' notification_try"

text \<open>Several dispatcher cycles, one after the other.\<close>

fun dispatcher_cycles :: "nat \<Rightarrow> bool \<Rightarrow> world \<Rightarrow> world" where
  "dispatcher_cycles 0 af w = w"
| "dispatcher_cycles (Suc n) af w = dispatcher_cycles n af (snd (NotificationAgent_run af w))"

section \<open>Notions used in the statements\<close>

text \<open>What the session holds of the two append-only tables, flushed or not.\<close>

definition all_notifications :: "session \<Rightarrow> Notification list" where
  "all_notifications s = notifications (view s) @ pending_notifications s"

definition all_audit_logs :: "session \<Rightarrow> AuditLog list" where
  "all_audit_logs s = audit_logs (view s) @ pending_audit_logs s"

text \<open>The four agents of the scheduler: the name of the status row and the \<open>try\<close> block.\<close>

definition agent_cycles ::
  "(string \<times> (session \<Rightarrow> world \<Rightarrow> (exn + unit) \<times> session \<times> world)) list" where
  "agent_cycles =
     [(''PlanningAgent'', planning_try), (''RiskAgent'', risk_try),
      (''EscalationAgent'', escalation_try), (''NotificationAgent'', notification_try)]"

text \<open>
  What a session shows about the task with a given primary key: its rows, and the type
  and recipient of the notifications and the action of the audit entries that refer to
  it, in table order.
\<close>

definition rows_of :: "nat \<Rightarrow> session \<Rightarrow> Task list" where
  "rows_of i s = filter (\<lambda>x. Task.id x = i) (tasks (view s))"

definition notified_of :: "nat \<Rightarrow> Notification list \<Rightarrow> (string \<times> nat) list" where
  "notified_of i ns = map (\<lambda>n. (type n, user_id n)) (filter (\<lambda>n. task_id n = Some i) ns)"

definition audited_of :: "nat \<Rightarrow> AuditLog list \<Rightarrow> string list" where
  "audited_of i as = map action (filter (\<lambda>a. entity_id a = Some i) as)"

text \<open>
  The session holds exactly one row with primary key \<open>i\<close> in the notification table,
  the row \<open>r\<close>, and no unflushed notification has that key.
\<close>

definition tracks :: "nat \<Rightarrow> Notification \<Rightarrow> session \<Rightarrow> bool" where
  "tracks i r s =
     (filter (\<lambda>x. Notification.id x = i) (notifications (view s)) = [r]
      \<and> filter (\<lambda>x. Notification.id x = i) (pending_notifications s) = [])"

text \<open>
  Reminders, as the statements about \<open>schedule_upcoming_reminders\<close> word them: the band
  of an offset (the hour before it), the existence test of \<open>create_reminder\<close> on a list
  of notifications, the reminder for a task, an offset and a due date (before it gets
  its primary key), and the notifications that refer to a task, keys blanked.
\<close>

definition in_band :: "datetime \<Rightarrow> datetime \<Rightarrow> int \<Rightarrow> bool" where
  "in_band now due h = ((h - 1) * hour < due - now \<and> due - now \<le> h * hour)"

definition has_reminder :: "Task \<Rightarrow> int \<Rightarrow> Notification list \<Rightarrow> bool" where
  "has_reminder t h ns =
     (find (\<lambda>n. task_id n = Some (Task.id t) \<and> type n = ''reminder''
                  \<and> contains (message n) (str_int h @ '' hour'')) ns \<noteq> None)"

definition reminder_of :: "Task \<Rightarrow> int \<Rightarrow> datetime \<Rightarrow> Notification" where
  "reminder_of t h due =
     new_notification ''reminder''
       ((if h = 1 then red_circle @ '' URGENT''
         else if h \<le> 8 then yellow_circle @ '' WARNING''
         else bell @ '' REMINDER'')
        @ '': Task '' @ quote @ title t @ quote @ '' is due in '' @ str_int h @ '' hours!'')
       DESKTOP (assigned_to t) (Some (Task.id t)) (Some (due - h * hour))"

definition about :: "Task \<Rightarrow> Notification list \<Rightarrow> Notification list" where
  "about t ns =
     map (\<lambda>n. n\<lparr>Notification.id := 0\<rparr>) (filter (\<lambda>n. task_id n = Some (Task.id t)) ns)"

text \<open>
  The session shows the notifications \<open>V\<close> for the task and holds no unflushed one for it.
\<close>

definition quiet :: "Task \<Rightarrow> Notification list \<Rightarrow> session \<Rightarrow> bool" where
  "quiet t V s =
     (filter (\<lambda>n. task_id n = Some (Task.id t)) (notifications (view s)) = V
      \<and> filter (\<lambda>n. task_id n = Some (Task.id t)) (pending_notifications s) = [])"

section \<open>Dependency counts as the specification words them\<close>

definition incomplete_dependency_count :: "Task list \<Rightarrow> int" where
  "incomplete_dependency_count deps =
     int (length (filter (\<lambda>d. Task.status d \<noteq> COMPLETED) deps))"

definition risky_dependency_count :: "Task list \<Rightarrow> int" where
  "risky_dependency_count deps =
     int (length (filter (\<lambda>d. Task.status d \<noteq> COMPLETED
                          \<and> (case confidence_score d of None \<Rightarrow> False | Some cs \<Rightarrow> cs < 50))
                   deps))"

section \<open>Concrete stores used below\<close>


text \<open>
  A row created sixty days after the instant at which it is scored (no such row is
  written by the application; it shows what the hypothesis of the bounds excludes).
\<close>

definition future_task :: Task where
  "future_task = \<lparr>Task.id = 1, title = ''t'', priority = Some LOW, status = IN_PROGRESS,
     due_date = Some (200 * hour), confidence_score = Some 100, priority_score = Some 50,
     is_escalated = False, escalated_to = None, assigned_to = 1, created_by = 1,
     created_at = Some (60 * day), updated_at = None\<rparr>"

definition future_store :: store where
  "future_store = \<lparr>users = [], tasks = [future_task], notifications = [], audit_logs = [],
     agent_status = [], task_dependencies = []\<rparr>"

text \<open>A task due thirty hours after the epoch, created at the epoch.\<close>

definition demo_task :: Task where
  "demo_task = \<lparr>Task.id = 1, title = ''t'', priority = Some MEDIUM, status = IN_PROGRESS,
     due_date = Some (30 * hour), confidence_score = Some 100, priority_score = Some 50,
     is_escalated = False, escalated_to = None, assigned_to = 1, created_by = 1,
     created_at = Some 0, updated_at = None\<rparr>"

definition demo_store :: store where
  "demo_store = \<lparr>users = [], tasks = [demo_task], notifications = [], audit_logs = [],
     agent_status = [], task_dependencies = []\<rparr>"

text \<open>
  One pending, critical task, overdue by an hour and still at full confidence; its
  confidence score is 100 - 40 - 10 - 15 = 35.
\<close>

definition risk_world :: world where
  "risk_world =
     \<lparr>database =
        \<lparr>users = [],
         tasks = [\<lparr>Task.id = 1, title = ''job'', priority = Some CRITICAL, status = PENDING,
                   due_date = Some (- hour), confidence_score = Some 100,
                   priority_score = Some 50, is_escalated = False, escalated_to = None,
                   assigned_to = 3, created_by = 1, created_at = Some 0,
                   updated_at = Some 0\<rparr>],
         notifications = [], audit_logs = [], agent_status = [], task_dependencies = []\<rparr>,
      clock = \<lparr>current = 0, ticks = []\<rparr>\<rparr>"

text \<open>
  Two tasks in progress and due in ten hours; the second has no priority score. The
  planning agent has a status row.
\<close>

definition null_score_world :: world where
  "null_score_world =
     \<lparr>database =
        \<lparr>users = [],
         tasks = [\<lparr>Task.id = 1, title = ''first'', priority = Some MEDIUM, status = IN_PROGRESS,
                   due_date = Some (10 * hour), confidence_score = Some 100,
                   priority_score = Some 50, is_escalated = False, escalated_to = None,
                   assigned_to = 3, created_by = 1, created_at = Some 0,
                   updated_at = Some 0\<rparr>,
                  \<lparr>Task.id = 2, title = ''second'', priority = Some MEDIUM,
                   status = IN_PROGRESS, due_date = Some (10 * hour),
                   confidence_score = Some 100, priority_score = None,
                   is_escalated = False, escalated_to = None, assigned_to = 3,
                   created_by = 1, created_at = Some 0, updated_at = Some 0\<rparr>],
         notifications = [], audit_logs = [],
         agent_status = [\<lparr>agent_name = ''PlanningAgent'', last_run = None,
                          tasks_processed = 0, errors_count = 0, last_error = None\<rparr>],
         task_dependencies = []\<rparr>,
      clock = \<lparr>current = 0, ticks = []\<rparr>\<rparr>"

text \<open>
  The default users, one task in progress that was due five hours ago and one task
  escalated earlier; it is hour 100.
\<close>

definition manager_user :: User where
  "manager_user = \<lparr>User.id = 2, name = ''Project Manager'', role = MANAGER, is_active = True\<rparr>"

definition overdue_task :: Task where
  "overdue_task =
     \<lparr>Task.id = 1, title = ''report'', priority = Some HIGH, status = IN_PROGRESS,
      due_date = Some (95 * hour), confidence_score = Some 80, priority_score = Some 50,
      is_escalated = False, escalated_to = None, assigned_to = 3, created_by = 1,
      created_at = Some 0, updated_at = Some (90 * hour)\<rparr>"

definition escalated_task :: Task where
  "escalated_task =
     \<lparr>Task.id = 2, title = ''audit'', priority = Some MEDIUM, status = ESCALATED,
      due_date = Some (50 * hour), confidence_score = Some 60, priority_score = Some 80,
      is_escalated = True, escalated_to = Some 2, assigned_to = 3, created_by = 1,
      created_at = Some 0, updated_at = Some (50 * hour)\<rparr>"

definition escalation_world :: world where
  "escalation_world =
     \<lparr>database =
        \<lparr>users = [\<lparr>User.id = 1, name = ''System Admin'', role = ADMIN, is_active = True\<rparr>,
                  manager_user,
                  \<lparr>User.id = 3, name = ''John Developer'', role = USER, is_active = True\<rparr>],
         tasks = [overdue_task, escalated_task],
         notifications = [], audit_logs = [],
         agent_status = [\<lparr>agent_name = ''EscalationAgent'', last_run = None,
                          tasks_processed = 0, errors_count = 0, last_error = None\<rparr>],
         task_dependencies = []\<rparr>,
      clock = \<lparr>current = 100 * hour, ticks = [1000000, 1000000]\<rparr>\<rparr>"

text \<open>
  Three notifications at hour 100: one pending and scheduled for hour 99, one failed
  after one of three attempts, one failed after all three.
\<close>

definition pending_note :: Notification where
  "pending_note =
     \<lparr>Notification.id = 1, type = ''reminder'', message = ''due soon'', channel = DESKTOP,
      status = NPENDING, retry_count = 0, max_retries = 3, is_read = False,
      scheduled_at = Some (99 * hour), sent_at = None, user_id = 3, task_id = None\<rparr>"

definition failed_note :: Notification where
  "failed_note =
     \<lparr>Notification.id = 2, type = ''alert'', message = ''at risk'', channel = DESKTOP,
      status = FAILED, retry_count = 1, max_retries = 3, is_read = False,
      scheduled_at = None, sent_at = None, user_id = 3, task_id = None\<rparr>"

definition exhausted_note :: Notification where
  "exhausted_note =
     \<lparr>Notification.id = 3, type = ''alert'', message = ''at risk'', channel = DESKTOP,
      status = FAILED, retry_count = 3, max_retries = 3, is_read = False,
      scheduled_at = None, sent_at = None, user_id = 3, task_id = None\<rparr>"

definition dispatch_world :: world where
  "dispatch_world =
     \<lparr>database =
        \<lparr>users = [], tasks = [],
         notifications = [pending_note, failed_note, exhausted_note],
         audit_logs = [],
         agent_status = [\<lparr>agent_name = ''NotificationAgent'', last_run = None,
                          tasks_processed = 0, errors_count = 0, last_error = None\<rparr>],
         task_dependencies = []\<rparr>,
      clock = \<lparr>current = 100 * hour, ticks = []\<rparr>\<rparr>"

text \<open>
  A store with one pending task that is due at the given time, no notification yet,
  and a clock that stands at 0.
\<close>

definition reminder_task :: "datetime \<Rightarrow> Task" where
  "reminder_task due = \<lparr>Task.id = 1, title = ''report'', priority = Some MEDIUM, status = PENDING,
     due_date = Some due, confidence_score = Some 100, priority_score = Some 50,
     is_escalated = False, escalated_to = None, assigned_to = 2, created_by = 1,
     created_at = Some 0, updated_at = None\<rparr>"

definition reminder_world :: "datetime \<Rightarrow> world" where
  "reminder_world due =
     \<lparr>database = \<lparr>users = [], tasks = [reminder_task due], notifications = [], audit_logs = [],
                   agent_status = [], task_dependencies = []\<rparr>,
      clock = \<lparr>current = 0, ticks = []\<rparr>\<rparr>"

section \<open>The clock\<close>

lemma utcnow_mono: "current c \<le> current (snd (utcnow c))"
  by (simp add: utcnow_def split: list.split)

lemma utcnow_frozen: "ticks c = [] \<Longrightarrow> utcnow c = (current c, c)"
  by (simp add: utcnow_def)

section \<open>Bounds of the scores\<close>

lemma urgency_bounds: "0 \<le> urgency_points d \<and> urgency_points d \<le> 30"
  by (simp add: urgency_points_def)

lemma weights_bounds: "5 \<le> priority_weights p \<and> priority_weights p \<le> 25"
  by (simp add: priority_weights_def split: option.split TaskPriority.split)

lemma age_nonneg: "cr \<le> now \<Longrightarrow> 0 \<le> min ((now - cr) div day) 10"
  by (simp add: day_def hour_def pos_imp_zdiv_nonneg_iff)

lemma calculate_priority_score_le: "fst (calculate_priority_score db t c) \<le> 100"
  by (simp add: calculate_priority_score_def Let_def case_prod_beta)

lemma due_date_urgency_ge: "s \<le> fst (due_date_urgency t s c)"
  using urgency_bounds by (simp add: due_date_urgency_def split: option.split)

lemma due_date_urgency_clock: "current c \<le> current (snd (due_date_urgency t s c))"
  using utcnow_mono by (simp add: due_date_urgency_def split: option.split)

lemma task_age_ge:
  "(case Task.created_at t of None \<Rightarrow> True | Some cr \<Rightarrow> cr \<le> current c) \<Longrightarrow>
   s \<le> fst (task_age t s c)"
  using age_nonneg[of _ "current c"]
  by (auto simp: task_age_def utcnow_def split: option.split)

text \<open>
  The priority score is at least 0 for a task that was not created after the instant
  at which the function starts.
\<close>

lemma calculate_priority_score_ge:
  assumes "case Task.created_at t of None \<Rightarrow> True | Some cr \<Rightarrow> cr \<le> current c"
  shows "0 \<le> fst (calculate_priority_score db t c)"
proof -
  let ?u = "due_date_urgency t 50 c"
  let ?s = "fst ?u + priority_weights (priority t)
            + min (int (length (dependent_tasks db t)) * 5) 15"
  have "case Task.created_at t of None \<Rightarrow> True | Some cr \<Rightarrow> cr \<le> current (snd ?u)"
    using assms due_date_urgency_clock[of c t 50] by (simp split: option.splits)
  then have "?s \<le> fst (task_age t ?s (snd ?u))" by (rule task_age_ge)
  moreover have "50 \<le> fst ?u" by (rule due_date_urgency_ge)
  moreover have "5 \<le> priority_weights (priority t)" using weights_bounds by simp
  ultimately show ?thesis
    by (simp add: calculate_priority_score_def Let_def case_prod_beta)
qed

text \<open>The confidence score, when the function returns one, lies between 0 and 100.\<close>

lemma calculate_confidence_score_bounds:
  "case fst (calculate_confidence_score db t c) of
     Inl e \<Rightarrow> True | Inr v \<Rightarrow> 0 \<le> v \<and> v \<le> 100"
  by (simp add: calculate_confidence_score_def Let_def case_prod_beta split: sum.split)

text \<open>
  The lower bound needs the hypothesis on \<open>created_at\<close>: the function caps the score at
  100 only, and for a row whose \<open>created_at\<close> lay sixty days after the clock's reading the
  age term would be \<open>min (-60) 10\<close>. The application never stores such a row, since
  \<open>created_at\<close> is set from the clock at insertion.
\<close>

lemma calculate_priority_score_future_row:
  "fst (calculate_priority_score future_store future_task \<lparr>current = 0, ticks = []\<rparr>) = - 5"
  by (simp add: calculate_priority_score_def future_store_def future_task_def utcnow_def
      due_date_urgency_def task_age_def urgency_points_def priority_weights_def
      dependent_tasks_def hour_def day_def)

section \<open>The dependency penalties\<close>

lemma dependency_loop_closed:
  "\<forall>d\<in>set deps. Task.status d = COMPLETED \<or> confidence_score d \<noteq> None \<Longrightarrow>
   dependency_loop deps score inc =
     Inr (score - 10 * risky_dependency_count deps, inc + incomplete_dependency_count deps)"
  by (induction deps arbitrary: score inc)
     (auto simp: risky_dependency_count_def incomplete_dependency_count_def)



section \<open>The scores and the clock\<close>

lemma dependency_loop_cong:
  "map (\<lambda>d. (Task.status d, confidence_score d)) deps'
     = map (\<lambda>d. (Task.status d, confidence_score d)) deps
   \<Longrightarrow> dependency_loop deps' score inc = dependency_loop deps score inc"
proof (induction deps arbitrary: deps' score inc)
  case Nil
  then show ?case by simp
next
  case (Cons d deps)
  then obtain d' ds' where e: "deps' = d' # ds'" by (cases deps') auto
  with Cons.prems have h: "Task.status d' = Task.status d"
    "confidence_score d' = confidence_score d"
    "map (\<lambda>d. (Task.status d, confidence_score d)) ds'
       = map (\<lambda>d. (Task.status d, confidence_score d)) deps"
    by auto
  show ?case using Cons.IH[OF h(3)] h(1,2) e by (simp split: option.split)
qed

lemma frozen_sections:
  assumes "ticks c = []"
  shows "snd (due_date_urgency t s c) = c" and "snd (task_age t s c) = c"
    and "snd (time_risk t s c) = c" and "snd (status_factor t s c) = c"
  using assms
  by (simp_all add: due_date_urgency_def task_age_def time_risk_def status_factor_def
      utcnow_frozen Let_def split: option.split)

lemma frozen_priority: "ticks c = [] \<Longrightarrow> snd (calculate_priority_score db t c) = c"
  by (simp add: calculate_priority_score_def Let_def case_prod_beta frozen_sections)

lemma frozen_confidence: "ticks c = [] \<Longrightarrow> snd (calculate_confidence_score db t c) = c"
  by (simp add: calculate_confidence_score_def Let_def case_prod_beta frozen_sections
      split: sum.split)

text \<open>
  Claim C6, as stated, fails: the scoring functions take the task (and the session) only
  and read \<open>datetime.utcnow()\<close> themselves, so two calls on the same task and store
  return different priority scores once the clock has moved on (here by ten hours: the
  task is due in 30 hours at the first call, 80 points, and in 20 hours at the second,
  85 points).
\<close>

theorem calculate_priority_score_two_calls_differ:
  "fst (calculate_priority_score demo_store demo_task
          (snd (calculate_priority_score demo_store demo_task
                  \<lparr>current = 0, ticks = [0, 10 * nat hour]\<rparr>)))
   \<noteq> fst (calculate_priority_score demo_store demo_task
            \<lparr>current = 0, ticks = [0, 10 * nat hour]\<rparr>)"
  by (simp add: calculate_priority_score_def demo_store_def demo_task_def utcnow_def
      due_date_urgency_def task_age_def urgency_points_def priority_weights_def
      dependent_tasks_def hour_def day_def)

text \<open>
  Claim C6, amended. While the clock stands at one instant, a second call returns what
  the first returned, for both scores, and the result depends on the task and the store
  only through the attributes read: due date, priority, creation date and number of
  dependents for the priority score; due date, priority, status and the status and
  confidence of the dependencies for the confidence score.
\<close>

theorem scores_fixed_instant:
  assumes "ticks c = []"
    and "due_date t' = due_date t" and "priority t' = priority t"
    and "Task.created_at t' = Task.created_at t" and "Task.status t' = Task.status t"
    and "length (dependent_tasks db' t') = length (dependent_tasks db t)"
    and "map (\<lambda>d. (Task.status d, confidence_score d)) (dependencies db' t')
         = map (\<lambda>d. (Task.status d, confidence_score d)) (dependencies db t)"
  shows "calculate_priority_score db' t' (snd (calculate_priority_score db t c))
           = calculate_priority_score db t c
         \<and> calculate_confidence_score db' t' (snd (calculate_confidence_score db t c))
           = calculate_confidence_score db t c"
proof -
  have r: "dependency_risk (dependencies db' t') s = dependency_risk (dependencies db t) s"
    for s
    using dependency_loop_cong[OF assms(7)] by (simp add: dependency_risk_def)
  have s1: "due_date_urgency t' s k = due_date_urgency t s k" for s k
    using assms(2) by (simp add: due_date_urgency_def)
  have s2: "task_age t' s k = task_age t s k" for s k
    using assms(4) by (simp add: task_age_def)
  have s3: "time_risk t' s k = time_risk t s k" for s k
    using assms(2) by (simp add: time_risk_def)
  have s4: "status_factor t' s k = status_factor t s k" for s k
    unfolding status_factor_def assms(2) assms(3) assms(5) by (rule refl)
  have "calculate_priority_score db' t' c = calculate_priority_score db t c"
    unfolding calculate_priority_score_def s1 s2 assms(3) assms(6) by (rule refl)
  moreover have "calculate_confidence_score db' t' c = calculate_confidence_score db t c"
    unfolding calculate_confidence_score_def s3 s4 r assms(3) by (rule refl)
  ultimately show ?thesis
    using frozen_priority[OF assms(1)] frozen_confidence[OF assms(1)] by simp
qed

theorem scores_fixed_instant_witness:
  "ticks \<lparr>current = 0, ticks = []\<rparr> = []
   \<and> calculate_priority_score demo_store demo_task
        (snd (calculate_priority_score demo_store demo_task \<lparr>current = 0, ticks = []\<rparr>))
       = calculate_priority_score demo_store demo_task \<lparr>current = 0, ticks = []\<rparr>
   \<and> calculate_confidence_score demo_store demo_task
        (snd (calculate_confidence_score demo_store demo_task \<lparr>current = 0, ticks = []\<rparr>))
       = calculate_confidence_score demo_store demo_task \<lparr>current = 0, ticks = []\<rparr>
   \<and> fst (calculate_priority_score demo_store demo_task \<lparr>current = 0, ticks = []\<rparr>) = 80
   \<and> fst (calculate_confidence_score demo_store demo_task \<lparr>current = 0, ticks = []\<rparr>)
       = Inr 90"
proof -
  have h: "ticks \<lparr>current = 0, ticks = []\<rparr> = []" by simp
  have p: "fst (calculate_priority_score demo_store demo_task \<lparr>current = 0, ticks = []\<rparr>) = 80"
    by (simp add: calculate_priority_score_def demo_store_def demo_task_def utcnow_def
        due_date_urgency_def task_age_def urgency_points_def priority_weights_def
        dependent_tasks_def hour_def day_def)
  have q: "fst (calculate_confidence_score demo_store demo_task \<lparr>current = 0, ticks = []\<rparr>)
           = Inr 90"
    by (simp add: calculate_confidence_score_def demo_store_def demo_task_def utcnow_def
        time_risk_def status_factor_def time_factor_def priority_risk_def dependency_risk_def
        dependencies_def hour_def day_def)
  show ?thesis
    using h p q
      scores_fixed_instant[where c = "\<lparr>current = 0, ticks = []\<rparr>" and t = demo_task
        and t' = demo_task and db = demo_store and db' = demo_store]
    by simp
qed

section \<open>Both scores lie between 0 and 100\<close>

lemma dependency_risk_returns:
  assumes "\<forall>d\<in>set deps. Task.status d = COMPLETED \<or> confidence_score d \<noteq> None"
  shows "\<exists>v. dependency_risk deps score = Inr v"
  using dependency_loop_closed[OF assms, of score 0] by (simp add: dependency_risk_def)

lemma calculate_confidence_score_returns:
  assumes "\<forall>d\<in>set (dependencies db t). Task.status d = COMPLETED \<or> confidence_score d \<noteq> None"
  shows "\<exists>v. fst (calculate_confidence_score db t c) = Inr v \<and> 0 \<le> v \<and> v \<le> 100"
proof -
  obtain v where "dependency_risk (dependencies db t) (fst (time_risk t 100 c)) = Inr v"
    using dependency_risk_returns[OF assms] by blast
  then show ?thesis
    by (simp add: calculate_confidence_score_def Let_def case_prod_beta)
qed

text \<open>
  Claim C8. Both scores lie within 0 and 100, also for an overdue task and for a task
  without dependencies or dependents. The states are those the application produces: a
  task's \<open>created_at\<close> is set from the clock when the row is inserted, so it is not after
  the instant at which the task is scored, and the confidence of an incomplete
  dependency is not NULL (the comparison \<open>dep.confidence_score < 50\<close> needs a number).
\<close>

theorem scores_within_bounds:
  assumes "case Task.created_at t of None \<Rightarrow> True | Some created \<Rightarrow> created \<le> current c"
    and "\<forall>d\<in>set (dependencies db t). Task.status d = COMPLETED \<or> confidence_score d \<noteq> None"
  shows "0 \<le> fst (calculate_priority_score db t c)
     \<and> fst (calculate_priority_score db t c) \<le> 100
     \<and> (\<exists>v. fst (calculate_confidence_score db t c) = Inr v \<and> 0 \<le> v \<and> v \<le> 100)"
  using calculate_priority_score_ge[OF assms(1), of db] calculate_priority_score_le[of db t c]
    calculate_confidence_score_returns[OF assms(2), of c]
  by simp

theorem scores_within_bounds_witness:
  "0 \<le> fst (calculate_priority_score demo_store demo_task \<lparr>current = 40 * hour, ticks = []\<rparr>)
   \<and> fst (calculate_priority_score demo_store demo_task \<lparr>current = 40 * hour, ticks = []\<rparr>)
       \<le> 100
   \<and> (\<exists>v. fst (calculate_confidence_score demo_store demo_task
                  \<lparr>current = 40 * hour, ticks = []\<rparr>) = Inr v \<and> 0 \<le> v \<and> v \<le> 100)
   \<and> fst (calculate_priority_score demo_store demo_task \<lparr>current = 40 * hour, ticks = []\<rparr>)
       = 91
   \<and> fst (calculate_confidence_score demo_store demo_task \<lparr>current = 40 * hour, ticks = []\<rparr>)
       = Inr 60"
proof -
  have h1: "case Task.created_at demo_task of None \<Rightarrow> True
            | Some created \<Rightarrow> created \<le> current \<lparr>current = 40 * hour, ticks = []\<rparr>"
    by (simp add: demo_task_def hour_def)
  have h2: "\<forall>d\<in>set (dependencies demo_store demo_task).
              Task.status d = COMPLETED \<or> confidence_score d \<noteq> None"
    by (simp add: dependencies_def demo_store_def)
  have p: "fst (calculate_priority_score demo_store demo_task \<lparr>current = 40 * hour, ticks = []\<rparr>)
           = 91"
    by (simp add: calculate_priority_score_def demo_store_def demo_task_def utcnow_def
        due_date_urgency_def task_age_def urgency_points_def priority_weights_def
        dependent_tasks_def hour_def day_def)
  have q: "fst (calculate_confidence_score demo_store demo_task
                  \<lparr>current = 40 * hour, ticks = []\<rparr>) = Inr 60"
    by (simp add: calculate_confidence_score_def demo_store_def demo_task_def utcnow_def
        time_risk_def status_factor_def time_factor_def priority_risk_def dependency_risk_def
        dependencies_def hour_def day_def)
  show ?thesis
    using scores_within_bounds[OF h1 h2] p q by simp
qed

section \<open>The session operations, field by field\<close>

lemma flush_fields [simp]:
  "autoflush (flush s) = autoflush s"
  "users (view (flush s)) = users (view s)"
  "tasks (view (flush s)) = tasks (view s)"
  "agent_status (view (flush s)) = agent_status (view s)"
  "task_dependencies (view (flush s)) = task_dependencies (view s)"
  "notifications (view (flush s)) = all_notifications s"
  "audit_logs (view (flush s)) = all_audit_logs s"
  "pending_notifications (flush s) = []"
  "pending_audit_logs (flush s) = []"
  by (simp_all add: flush_def all_notifications_def all_audit_logs_def)

lemma all_flush [simp]:
  "all_notifications (flush s) = all_notifications s"
  "all_audit_logs (flush s) = all_audit_logs s"
  by (simp_all add: all_notifications_def all_audit_logs_def)

lemma autoflushed_fields [simp]:
  "autoflush (autoflushed s) = autoflush s"
  "users (view (autoflushed s)) = users (view s)"
  "tasks (view (autoflushed s)) = tasks (view s)"
  "agent_status (view (autoflushed s)) = agent_status (view s)"
  "task_dependencies (view (autoflushed s)) = task_dependencies (view s)"
  "all_notifications (autoflushed s) = all_notifications s"
  "all_audit_logs (autoflushed s) = all_audit_logs s"
  by (simp_all add: autoflushed_def)

lemma save_task_fields [simp]:
  "autoflush (save_task t s) = autoflush s"
  "users (view (save_task t s)) = users (view s)"
  "tasks (view (save_task t s))
     = map (\<lambda>x. if Task.id x = Task.id t then t else x) (tasks (view s))"
  "agent_status (view (save_task t s)) = agent_status (view s)"
  "task_dependencies (view (save_task t s)) = task_dependencies (view s)"
  "notifications (view (save_task t s)) = notifications (view s)"
  "audit_logs (view (save_task t s)) = audit_logs (view s)"
  "pending_notifications (save_task t s) = pending_notifications s"
  "pending_audit_logs (save_task t s) = pending_audit_logs s"
  "all_notifications (save_task t s) = all_notifications s"
  "all_audit_logs (save_task t s) = all_audit_logs s"
  by (simp_all add: save_task_def all_notifications_def all_audit_logs_def)

lemma save_agent_status_fields [simp]:
  "autoflush (save_agent_status a s) = autoflush s"
  "users (view (save_agent_status a s)) = users (view s)"
  "tasks (view (save_agent_status a s)) = tasks (view s)"
  "agent_status (view (save_agent_status a s))
     = map (\<lambda>x. if agent_name x = agent_name a then a else x) (agent_status (view s))"
  "task_dependencies (view (save_agent_status a s)) = task_dependencies (view s)"
  "notifications (view (save_agent_status a s)) = notifications (view s)"
  "audit_logs (view (save_agent_status a s)) = audit_logs (view s)"
  "pending_notifications (save_agent_status a s) = pending_notifications s"
  "pending_audit_logs (save_agent_status a s) = pending_audit_logs s"
  "all_notifications (save_agent_status a s) = all_notifications s"
  "all_audit_logs (save_agent_status a s) = all_audit_logs s"
  by (simp_all add: save_agent_status_def all_notifications_def all_audit_logs_def)

lemma save_notification_fields [simp]:
  "autoflush (save_notification n s) = autoflush s"
  "users (view (save_notification n s)) = users (view s)"
  "tasks (view (save_notification n s)) = tasks (view s)"
  "agent_status (view (save_notification n s)) = agent_status (view s)"
  "task_dependencies (view (save_notification n s)) = task_dependencies (view s)"
  "notifications (view (save_notification n s))
     = map (\<lambda>x. if Notification.id x = Notification.id n then n else x)
         (notifications (view s))"
  "audit_logs (view (save_notification n s)) = audit_logs (view s)"
  "pending_notifications (save_notification n s) = pending_notifications s"
  "pending_audit_logs (save_notification n s) = pending_audit_logs s"
  "all_audit_logs (save_notification n s) = all_audit_logs s"
  by (simp_all add: save_notification_def all_audit_logs_def)

lemma add_notification_fields [simp]:
  "autoflush (add_notification n s) = autoflush s"
  "view (add_notification n s) = view s"
  "pending_notifications (add_notification n s)
     = pending_notifications s
       @ [n\<lparr>Notification.id := next_id (map Notification.id (all_notifications s))\<rparr>]"
  "pending_audit_logs (add_notification n s) = pending_audit_logs s"
  "all_notifications (add_notification n s)
     = all_notifications s
       @ [n\<lparr>Notification.id := next_id (map Notification.id (all_notifications s))\<rparr>]"
  "all_audit_logs (add_notification n s) = all_audit_logs s"
  by (simp_all add: add_notification_def all_notifications_def all_audit_logs_def)

lemma add_audit_log_fields [simp]:
  "autoflush (add_audit_log a s) = autoflush s"
  "view (add_audit_log a s) = view s"
  "pending_notifications (add_audit_log a s) = pending_notifications s"
  "pending_audit_logs (add_audit_log a s)
     = pending_audit_logs s
       @ [a\<lparr>AuditLog.id := next_id (map AuditLog.id (all_audit_logs s))\<rparr>]"
  "all_notifications (add_audit_log a s) = all_notifications s"
  "all_audit_logs (add_audit_log a s)
     = all_audit_logs s @ [a\<lparr>AuditLog.id := next_id (map AuditLog.id (all_audit_logs s))\<rparr>]"
  by (simp_all add: add_audit_log_def all_notifications_def all_audit_logs_def)

lemma SessionLocal_fields [simp]:
  "autoflush (SessionLocal af w) = af"
  "view (SessionLocal af w) = database w"
  "pending_notifications (SessionLocal af w) = []"
  "pending_audit_logs (SessionLocal af w) = []"
  "all_notifications (SessionLocal af w) = notifications (database w)"
  "all_audit_logs (SessionLocal af w) = audit_logs (database w)"
  by (simp_all add: SessionLocal_def all_notifications_def all_audit_logs_def)

lemma commit_fields [simp]:
  "fst (commit s w) = flush s"
  "database (snd (commit s w)) = view (flush s)"
  "clock (snd (commit s w)) = clock w"
  by (simp_all add: commit_def)

section \<open>Loops\<close>

lemma for_loop_invariant:
  assumes "P st" and "\<And>x st. x \<in> set xs \<Longrightarrow> P st \<Longrightarrow> P (snd (body x st))"
  shows "P (snd (for_loop body xs st))"
  using assms
proof (induction xs arbitrary: st)
  case Nil
  then show ?case by simp
next
  case (Cons x xs)
  have step: "P (snd (body x st))" using Cons.prems by simp
  obtain r st' where b: "body x st = (r, st')" by (cases "body x st")
  show ?case
  proof (cases r)
    case (Inl e)
    with b step show ?thesis by simp
  next
    case (Inr u)
    have "P (snd (for_loop body xs st'))"
      using Cons.IH[of st'] Cons.prems(2) step b by simp
    with b Inr show ?thesis by simp
  qed
qed

section \<open>The end of a cycle\<close>

lemma record_success_database:
  "tasks (database (snd (record_success agent n s w))) = tasks (view s)"
  "users (database (snd (record_success agent n s w))) = users (view s)"
  "notifications (database (snd (record_success agent n s w))) = all_notifications s"
  "audit_logs (database (snd (record_success agent n s w))) = all_audit_logs s"
  by (simp_all add: record_success_def Let_def case_prod_beta split: option.split)

lemma flush_flush [simp]: "flush (flush s) = flush s"
  by (simp add: flush_def)

lemma flush_autoflushed [simp]: "flush (autoflushed s) = flush s"
  by (simp add: autoflushed_def)

lemma flush_save_agent_status:
  "view (flush (save_agent_status a s))
     = (view (flush s))\<lparr>agent_status :=
          map (\<lambda>x. if agent_name x = agent_name a then a else x) (agent_status (view s))\<rparr>"
  by (simp add: flush_def save_agent_status_def)

lemma find_agent_name:
  "find (\<lambda>a. agent_name a = agent) xs = Some a \<Longrightarrow> agent_name a = agent"
  by (induction xs) (auto split: if_splits)

lemma record_error_some:
  assumes "find (\<lambda>a. agent_name a = agent) (agent_status (view s)) = Some a"
  shows "database (snd (record_error agent e s w))
     = (view (flush s))\<lparr>agent_status :=
          map (\<lambda>x. if agent_name x = agent
                    then a\<lparr>errors_count := errors_count a + 1, last_error := Some (str_exn e)\<rparr>
                    else x) (agent_status (view s))\<rparr>"
  using assms find_agent_name[OF assms]
  by (simp add: record_error_def Let_def flush_save_agent_status)

lemma record_error_none:
  assumes "find (\<lambda>a. agent_name a = agent) (agent_status (view s)) = None"
  shows "snd (record_error agent e s w) = w"
  using assms by (simp add: record_error_def Let_def)

section \<open>The shape of a cycle that loops over tasks\<close>

lemma flush_nothing_pending:
  "pending_notifications s = [] \<Longrightarrow> pending_audit_logs s = [] \<Longrightarrow> flush s = s"
  by (simp add: flush_def)

lemma autoflushed_SessionLocal [simp]: "autoflushed (SessionLocal af w) = SessionLocal af w"
  by (simp add: autoflushed_def flush_nothing_pending)

lemma agent_run_no_exception: "fst (agent_run agent try_block af w) = None"
  by (simp add: agent_run_def split: prod.split sum.split)

lemma loop_run:
  assumes "\<And>s w. try_block s w =
     (let s0 = autoflushed s; tasks = sel (view s0)
      in case for_loop step tasks (s0, clock w) of
           (Inl e, s1, c1) \<Rightarrow> (Inl e, s1, w\<lparr>clock := c1\<rparr>)
         | (Inr u, s1, c1) \<Rightarrow>
             (Inr (), record_success agent (int (length tasks)) s1 (w\<lparr>clock := c1\<rparr>)))"
    and "for_loop step (sel (database w)) (SessionLocal af w, clock w) = (r, s1, c1)"
  shows "snd (agent_run agent try_block af w) =
           (case r of
              Inl e \<Rightarrow> snd (record_error agent e s1 (w\<lparr>clock := c1\<rparr>))
            | Inr u \<Rightarrow> snd (record_success agent (int (length (sel (database w)))) s1
                              (w\<lparr>clock := c1\<rparr>)))"
  using assms(2)
  by (simp add: agent_run_def assms(1) Let_def case_prod_beta split: sum.split)

lemmas planning_run = loop_run[OF planning_try_def, folded PlanningAgent_run_def]
lemmas risk_run = loop_run[OF risk_try_def, folded RiskAgent_run_def]
lemmas escalation_run = loop_run[OF escalation_try_def, folded EscalationAgent_run_def]

lemma record_error_notifications:
  "notifications (database (snd (record_error agent e s w)))
     = (case find (\<lambda>a. agent_name a = agent) (agent_status (view s)) of
          None \<Rightarrow> notifications (database w) | Some a \<Rightarrow> all_notifications s)"
  by (simp add: record_error_some record_error_none split: option.split)

section \<open>Which agents create notifications\<close>

lemma planning_step_notifications:
  "all_notifications (fst (snd (planning_step t st))) = all_notifications (fst st)"
  by (simp add: planning_step_def Let_def split: option.split)

lemma risk_step_notifications:
  "\<exists>new. all_notifications (fst (snd (risk_step t st))) = all_notifications (fst st) @ new
         \<and> list_all (\<lambda>n. type n = ''alert'') new"
  by (simp add: risk_step_def Let_def new_notification_def split: option.split sum.split)

lemma escalation_step_notifications:
  "\<exists>new. all_notifications (fst (snd (escalation_step t st))) = all_notifications (fst st) @ new
         \<and> list_all (\<lambda>n. type n = ''escalation'') new"
  by (simp add: escalation_step_def escalate_task_def Let_def new_notification_def
      split: option.split sum.split prod.split)

lemma loop_adds_notifications:
  fixes step :: "'a \<Rightarrow> session \<times> 'b \<Rightarrow> (exn + unit) \<times> session \<times> 'b"
  assumes "\<And>t st. \<exists>new. all_notifications (fst (snd (step t st)))
                            = all_notifications (fst st) @ new \<and> list_all Q new"
  shows "\<exists>new. all_notifications (fst (snd (for_loop step ts st)))
                  = all_notifications (fst st) @ new \<and> list_all Q new"
proof -
  define N where "N = all_notifications (fst st)"
  have "\<exists>new. all_notifications (fst (snd (for_loop step ts st))) = N @ new \<and> list_all Q new"
  proof (rule for_loop_invariant[where P = "\<lambda>st. \<exists>new. all_notifications (fst st) = N @ new
                                                        \<and> list_all Q new"])
    show "\<exists>new. all_notifications (fst st) = N @ new \<and> list_all Q new"
      by (simp add: N_def)
  next
    fix x :: 'a and st' :: "session \<times> 'b"
    assume "\<exists>new. all_notifications (fst st') = N @ new \<and> list_all Q new"
    then obtain new where n: "all_notifications (fst st') = N @ new" "list_all Q new" by blast
    obtain new' where n': "all_notifications (fst (snd (step x st')))
        = all_notifications (fst st') @ new'" "list_all Q new'"
      using assms[of x st'] by blast
    show "\<exists>new. all_notifications (fst (snd (step x st'))) = N @ new \<and> list_all Q new"
      using n n' by (intro exI[of _ "new @ new'"]) simp
  qed
  then show ?thesis by (simp add: N_def)
qed

lemma cycle_adds_notifications:
  assumes "\<And>w r s1 c1. for_loop step (sel (database w)) (SessionLocal af w, clock w) = (r, s1, c1)
             \<Longrightarrow> snd (run af w) =
                 (case r of
                    Inl e \<Rightarrow> snd (record_error agent e s1 (w\<lparr>clock := c1\<rparr>))
                  | Inr u \<Rightarrow> snd (record_success agent (int (length (sel (database w)))) s1
                                    (w\<lparr>clock := c1\<rparr>)))"
    and "\<And>t st. \<exists>new. all_notifications (fst (snd (step t st)))
                            = all_notifications (fst st) @ new \<and> list_all Q new"
  shows "\<exists>new. notifications (database (snd (run af w))) = notifications (database w) @ new
               \<and> list_all Q new"
proof -
  obtain r s1 c1 where L: "for_loop step (sel (database w)) (SessionLocal af w, clock w) = (r, s1, c1)"
    by (cases "for_loop step (sel (database w)) (SessionLocal af w, clock w)") auto
  obtain new where n: "all_notifications s1 = notifications (database w) @ new" "list_all Q new"
    using loop_adds_notifications[of step Q "sel (database w)" "(SessionLocal af w, clock w)", OF assms(2)] L
    by auto
  show ?thesis
  proof (cases r)
    case (Inr u)
    then have "notifications (database (snd (run af w))) = all_notifications s1"
      using assms(1)[OF L] by (simp add: record_success_database)
    with n show ?thesis by (intro exI[of _ new]) simp
  next
    case (Inl e)
    then have "notifications (database (snd (run af w)))
       = (case find (\<lambda>a. agent_name a = agent) (agent_status (view s1)) of
          None \<Rightarrow> notifications (database w) | Some a \<Rightarrow> all_notifications s1)"
      using assms(1)[OF L] by (simp add: record_error_notifications split: option.split)
    with n show ?thesis
      by (cases "find (\<lambda>a. agent_name a = agent) (agent_status (view s1))")
         (auto intro: exI[of _ new] exI[of _ "[]"])
  qed
qed

text \<open>
  Claim C9, as stated, fails: a risk cycle does create notifications. For a task whose
  confidence score drops from 40 or more to below 40, \<open>RiskAgent.run\<close> adds a
  notification of type \<open>alert\<close> for the assignee, next to the audit entry.
\<close>

theorem risk_cycle_creates_notification:
  "notifications (database risk_world) = []
   \<and> map (\<lambda>n. (type n, user_id n, task_id n))
         (notifications (database (snd (RiskAgent_run False risk_world))))
       = [(''alert'', 3, Some 1)]"
  by code_simp

text \<open>
  Claim C9, amended. Among the agents, notifications are created by the risk agent
  (alerts), the escalation agent (escalations) and the notification agent, and no
  planning, risk or escalation cycle changes or removes an existing notification: after
  such a cycle the table is the old table followed by the new rows. A planning cycle
  adds none, a risk cycle adds alerts only, an escalation cycle escalations only. This
  holds whether the cycle ends normally or in its exception handler.
\<close>

theorem agents_notification_frame:
  "notifications (database (snd (PlanningAgent_run af w))) = notifications (database w)
   \<and> (\<exists>new. notifications (database (snd (RiskAgent_run af w)))
              = notifications (database w) @ new
            \<and> list_all (\<lambda>n. type n = ''alert'') new)
   \<and> (\<exists>new. notifications (database (snd (EscalationAgent_run af w)))
              = notifications (database w) @ new
            \<and> list_all (\<lambda>n. type n = ''escalation'') new)"
proof -
  have p: "\<exists>new. all_notifications (fst (snd (planning_step t st)))
                  = all_notifications (fst st) @ new \<and> list_all (\<lambda>n. False) new" for t st
    by (simp add: planning_step_notifications)
  have "\<exists>new. notifications (database (snd (PlanningAgent_run af w)))
              = notifications (database w) @ new \<and> list_all (\<lambda>n. False) new"
    by (rule cycle_adds_notifications[where run = PlanningAgent_run, OF planning_run p])
  then have "notifications (database (snd (PlanningAgent_run af w))) = notifications (database w)"
    by (auto simp: list_all_iff)
  moreover have "\<exists>new. notifications (database (snd (RiskAgent_run af w)))
              = notifications (database w) @ new \<and> list_all (\<lambda>n. type n = ''alert'') new"
    by (rule cycle_adds_notifications[where run = RiskAgent_run, OF risk_run risk_step_notifications])
  moreover have "\<exists>new. notifications (database (snd (EscalationAgent_run af w)))
              = notifications (database w) @ new \<and> list_all (\<lambda>n. type n = ''escalation'') new"
    by (rule cycle_adds_notifications[where run = EscalationAgent_run,
          OF escalation_run escalation_step_notifications])
  ultimately show ?thesis by blast
qed

section \<open>A cycle that ends in its exception handler\<close>

lemma planning_step_agent_status:
  "agent_status (view (fst (snd (planning_step t st)))) = agent_status (view (fst st))"
  by (simp add: planning_step_def Let_def split: option.split)

lemma risk_step_agent_status:
  "agent_status (view (fst (snd (risk_step t st)))) = agent_status (view (fst st))"
  by (simp add: risk_step_def Let_def split: option.split sum.split)

lemma escalation_step_agent_status:
  "agent_status (view (fst (snd (escalation_step t st)))) = agent_status (view (fst st))"
  by (simp add: escalation_step_def escalate_task_def Let_def
      split: option.split sum.split prod.split)

lemma loop_agent_status:
  fixes step :: "'a \<Rightarrow> session \<times> 'b \<Rightarrow> (exn + unit) \<times> session \<times> 'b"
  assumes "\<And>t st. agent_status (view (fst (snd (step t st)))) = agent_status (view (fst st))"
  shows "agent_status (view (fst (snd (for_loop step ts st)))) = agent_status (view (fst st))"
  by (rule for_loop_invariant[where P = "\<lambda>x. agent_status (view (fst x)) = agent_status (view (fst st))"])
     (simp_all add: assms)

lemma loop_try_raises:
  assumes "\<And>s w. try_block s w =
     (let s0 = autoflushed s; tasks = sel (view s0)
      in case for_loop step tasks (s0, clock w) of
           (Inl e, s1, c1) \<Rightarrow> (Inl e, s1, w\<lparr>clock := c1\<rparr>)
         | (Inr u, s1, c1) \<Rightarrow>
             (Inr (), record_success agent (int (length tasks)) s1 (w\<lparr>clock := c1\<rparr>)))"
    and "\<And>t st. agent_status (view (fst (snd (step t st)))) = agent_status (view (fst st))"
    and "try_block (SessionLocal af w) w = (Inl e, s, w1)"
  shows "database w1 = database w \<and> agent_status (view s) = agent_status (database w)"
proof -
  let ?L = "for_loop step (sel (database w)) (SessionLocal af w, clock w)"
  have a: "agent_status (view (fst (snd ?L))) = agent_status (database w)"
    using loop_agent_status[of step "sel (database w)" "(SessionLocal af w, clock w)", OF assms(2)]
    by simp
  obtain r s1 c1 where L: "?L = (r, s1, c1)" by (cases ?L) auto
  from assms(3) L have "r = Inl e \<and> s = s1 \<and> w1 = w\<lparr>clock := c1\<rparr>"
    by (cases r) (simp_all add: assms(1) Let_def case_prod_beta)
  with a L show ?thesis by simp
qed

lemma create_reminder_session: "snd (create_reminder t h s) = autoflushed s"
  by (simp add: create_reminder_def Let_def split: option.split)

lemma reminder_step_agent_status:
  "agent_status (view (fst (snd (reminder_step now t h st)))) = agent_status (view (fst st))"
  by (simp add: reminder_step_def Let_def create_reminder_session
      split: option.split sum.split)

lemma schedule_agent_status:
  "agent_status (view (fst (snd (schedule_upcoming_reminders s c)))) = agent_status (view s)"
proof -
  have inner: "agent_status (view (fst (snd (for_loop (reminder_step now t) hs st))))
                 = agent_status (view (fst st))" for now t hs st
    by (rule loop_agent_status) (rule reminder_step_agent_status)
  have "agent_status (view (fst (snd (for_loop (\<lambda>task. for_loop (reminder_step now task) reminder_hours) ts st))))
          = agent_status (view (fst st))" for now ts st
    by (rule loop_agent_status) (rule inner)
  then show ?thesis
    by (simp add: schedule_upcoming_reminders_def Let_def case_prod_beta split: sum.split)
qed

lemma send_step_agent_status:
  "agent_status (view (fst (snd (try_except (send_try now n) (send_except n) st))))
     = agent_status (view (fst st))"
  by (simp add: try_except_def send_try_def)

lemma process_agent_status:
  "agent_status (view (fst (snd (process_scheduled_notifications s c)))) = agent_status (view s)"
proof -
  have "agent_status (view (fst (snd (for_loop (\<lambda>n. try_except (send_try now n) (send_except n)) ns st))))
          = agent_status (view (fst st))" for now ns st
    by (rule loop_agent_status) (rule send_step_agent_status)
  then show ?thesis
    by (simp add: process_scheduled_notifications_def Let_def case_prod_beta split: sum.split)
qed

lemma retry_step_agent_status:
  "agent_status (view (fst (snd (try_except (retry_try n) (retry_except n) st))))
     = agent_status (view (fst st))"
  by (simp add: try_except_def retry_try_def Let_def)

lemma retry_agent_status:
  "agent_status (view (fst (snd (retry_failed_notifications s c)))) = agent_status (view s)"
proof -
  have "agent_status (view (fst (snd (for_loop (\<lambda>n. try_except (retry_try n) (retry_except n)) ns st))))
          = agent_status (view (fst st))" for ns st
    by (rule loop_agent_status) (rule retry_step_agent_status)
  then show ?thesis
    by (simp add: retry_failed_notifications_def Let_def case_prod_beta split: sum.split)
qed

lemma notification_try_raises:
  assumes "notification_try (SessionLocal af w) w = (Inl e, s, w1)"
  shows "database w1 = database w \<and> agent_status (view s) = agent_status (database w)"
proof -
  let ?s0 = "SessionLocal af w"
  obtain r1 s1 c1 where A: "schedule_upcoming_reminders ?s0 (clock w) = (r1, s1, c1)"
    by (cases "schedule_upcoming_reminders ?s0 (clock w)") auto
  obtain r2 s2 c2 where B: "process_scheduled_notifications s1 c1 = (r2, s2, c2)"
    by (cases "process_scheduled_notifications s1 c1") auto
  obtain r3 s3 c3 where C: "retry_failed_notifications s2 c2 = (r3, s3, c3)"
    by (cases "retry_failed_notifications s2 c2") auto
  have a1: "agent_status (view s1) = agent_status (database w)"
    using schedule_agent_status[of ?s0 "clock w"] A by simp
  have a2: "agent_status (view s2) = agent_status (database w)"
    using process_agent_status[of s1 c1] B a1 by simp
  have a3: "agent_status (view s3) = agent_status (database w)"
    using retry_agent_status[of s2 c2] C a2 by simp
  show ?thesis
    using assms A B C a1 a2 a3
    by (auto simp: notification_try_def split: sum.splits)
qed

lemma failed_cycle_generic:
  assumes "try_block (SessionLocal af w) w = (Inl e, s, w1)"
    and "database w1 = database w \<and> agent_status (view s) = agent_status (database w)"
  shows "fst (agent_run agent try_block af w) = None
     \<and> (case find (\<lambda>a. agent_name a = agent) (agent_status (database w)) of
          None \<Rightarrow> database (snd (agent_run agent try_block af w)) = database w
        | Some a \<Rightarrow>
            database (snd (agent_run agent try_block af w))
              = (view (flush s))\<lparr>agent_status :=
                   map (\<lambda>x. if agent_name x = agent
                             then a\<lparr>errors_count := errors_count a + 1,
                                    last_error := Some (str_exn e)\<rparr>
                             else x) (agent_status (database w))\<rparr>)"
  using assms
  by (simp add: agent_run_def record_error_some record_error_none split: option.split)

text \<open>
  Claim C1, amended. When the \<open>try\<close> block of a cycle raises, no exception reaches the
  caller. If the agent has a status row, the handler adds one to its \<open>errors_count\<close>,
  stores the message in \<open>last_error\<close> and commits: the database then holds the session's
  view as it was when the exception was raised, so every change the cycle had made up to
  that point is persisted together with the error record, not aborted. If the agent has
  no status row, nothing is recorded and the database is left as it was.
\<close>

theorem failed_cycle_is_committed:
  assumes "(agent, try_block) \<in> set agent_cycles"
    and "try_block (SessionLocal af w) w = (Inl e, s, w1)"
  shows "fst (agent_run agent try_block af w) = None
     \<and> (case find (\<lambda>a. agent_name a = agent) (agent_status (database w)) of
          None \<Rightarrow> database (snd (agent_run agent try_block af w)) = database w
        | Some a \<Rightarrow>
            database (snd (agent_run agent try_block af w))
              = (view (flush s))\<lparr>agent_status :=
                   map (\<lambda>x. if agent_name x = agent
                             then a\<lparr>errors_count := errors_count a + 1,
                                    last_error := Some (str_exn e)\<rparr>
                             else x) (agent_status (database w))\<rparr>)"
proof -
  have "database w1 = database w \<and> agent_status (view s) = agent_status (database w)"
  proof -
    consider "try_block = planning_try" | "try_block = risk_try"
      | "try_block = escalation_try" | "try_block = notification_try"
      using assms(1) by (auto simp: agent_cycles_def)
    then show ?thesis
    proof cases
      case 1
      show ?thesis
        by (rule loop_try_raises[OF planning_try_def planning_step_agent_status])
           (use 1 assms(2) in simp)
    next
      case 2
      show ?thesis
        by (rule loop_try_raises[OF risk_try_def risk_step_agent_status])
           (use 2 assms(2) in simp)
    next
      case 3
      show ?thesis
        by (rule loop_try_raises[OF escalation_try_def escalation_step_agent_status])
           (use 3 assms(2) in simp)
    next
      case 4
      show ?thesis
        by (rule notification_try_raises) (use 4 assms(2) in simp)
    qed
  qed
  with assms(2) show ?thesis by (rule failed_cycle_generic)
qed

theorem failed_cycle_is_committed_witness:
  "fst (agent_run ''PlanningAgent'' planning_try False null_score_world) = None
   \<and> database (snd (agent_run ''PlanningAgent'' planning_try False null_score_world))
       = (view (flush (fst (snd (planning_try (SessionLocal False null_score_world)
                                   null_score_world)))))
           \<lparr>agent_status :=
              [\<lparr>agent_name = ''PlanningAgent'', last_run = None, tasks_processed = 0,
                errors_count = 1,
                last_error = Some (str_exn (unsupported_operand ''-'' ''NoneType'' ''float''))\<rparr>]\<rparr>"
proof -
  let ?S = "SessionLocal False null_score_world"
  let ?e = "unsupported_operand ''-'' ''NoneType'' ''float''"
  have m: "(''PlanningAgent'', planning_try) \<in> set agent_cycles"
    by (simp add: agent_cycles_def)
  have "fst (planning_try ?S null_score_world) = Inl ?e"
    by code_simp
  then have t: "planning_try ?S null_score_world
                  = (Inl ?e, fst (snd (planning_try ?S null_score_world)),
                     snd (snd (planning_try ?S null_score_world)))"
    by (metis prod.collapse)
  have f: "find (\<lambda>a. agent_name a = ''PlanningAgent'') (agent_status (database null_score_world))
             = Some \<lparr>agent_name = ''PlanningAgent'', last_run = None, tasks_processed = 0,
                     errors_count = 0, last_error = None\<rparr>"
    by (simp add: null_score_world_def)
  have g: "agent_status (database null_score_world)
             = [\<lparr>agent_name = ''PlanningAgent'', last_run = None, tasks_processed = 0,
                 errors_count = 0, last_error = None\<rparr>]"
    by (simp add: null_score_world_def)
  show ?thesis
    using failed_cycle_is_committed[OF m t] f g by simp
qed

text \<open>
  Claim C1, as stated, fails: the handler does not roll back. In a planning cycle over
  two tasks, the first gets its new priority score (85) and an audit entry, the second
  has no priority score and \<open>abs(old_score - new_score)\<close> raises \<open>TypeError\<close>; the handler's
  commit then persists the new score and the audit entry along with the error count.
\<close>

theorem failed_planning_cycle_keeps_changes:
  "fst (planning_try (SessionLocal False null_score_world) null_score_world)
     = Inl (unsupported_operand ''-'' ''NoneType'' ''float'')
   \<and> map priority_score (tasks (database null_score_world)) = [Some 50, None]
   \<and> audit_logs (database null_score_world) = []
   \<and> map priority_score (tasks (database (snd (PlanningAgent_run False null_score_world))))
       = [Some 85, None]
   \<and> map action (audit_logs (database (snd (PlanningAgent_run False null_score_world))))
       = [''priority_increased'']
   \<and> map errors_count (agent_status (database (snd (PlanningAgent_run False null_score_world))))
       = [1]"
  by code_simp

section \<open>The outcome of a cycle that loops over tasks\<close>

lemma record_error_tables:
  "(tasks (database (snd (record_error agent e s w))),
    notifications (database (snd (record_error agent e s w))),
    audit_logs (database (snd (record_error agent e s w))))
   = (case find (\<lambda>a. agent_name a = agent) (agent_status (view s)) of
        None \<Rightarrow> (tasks (database w), notifications (database w), audit_logs (database w))
      | Some a \<Rightarrow> (tasks (view s), all_notifications s, all_audit_logs s))"
  by (simp add: record_error_some record_error_none split: option.split)

lemma cycle_tables:
  assumes "\<And>w r s1 c1. for_loop step (sel (database w)) (SessionLocal af w, clock w) = (r, s1, c1)
             \<Longrightarrow> snd (run af w) =
                 (case r of
                    Inl e \<Rightarrow> snd (record_error agent e s1 (w\<lparr>clock := c1\<rparr>))
                  | Inr u \<Rightarrow> snd (record_success agent (int (length (sel (database w)))) s1
                                    (w\<lparr>clock := c1\<rparr>)))"
    and "Q (tasks (database w)) (notifications (database w)) (audit_logs (database w))"
    and "\<And>s. s = fst (snd (for_loop step (sel (database w)) (SessionLocal af w, clock w)))
           \<Longrightarrow> Q (tasks (view s)) (all_notifications s) (all_audit_logs s)"
  shows "Q (tasks (database (snd (run af w)))) (notifications (database (snd (run af w))))
           (audit_logs (database (snd (run af w))))"
proof -
  obtain r s1 c1 where L: "for_loop step (sel (database w)) (SessionLocal af w, clock w) = (r, s1, c1)"
    by (cases "for_loop step (sel (database w)) (SessionLocal af w, clock w)") auto
  have q: "Q (tasks (view s1)) (all_notifications s1) (all_audit_logs s1)"
    using assms(3)[of s1] L by simp
  show ?thesis
  proof (cases r)
    case (Inr u)
    then show ?thesis using assms(1)[OF L] q by (simp add: record_success_database)
  next
    case (Inl e)
    show ?thesis
    proof (cases "find (\<lambda>a. agent_name a = agent) (agent_status (view s1))")
      case None
      then show ?thesis using assms(1)[OF L] Inl assms(2) by (simp add: record_error_none)
    next
      case (Some a)
      then show ?thesis using assms(1)[OF L] Inl q by (simp add: record_error_some)
    qed
  qed
qed

section \<open>Escalation leaves an escalated task alone\<close>

lemma should_escalate_escalated: "is_escalated t \<Longrightarrow> should_escalate t c = (Inr (False, None), c)"
  by (simp add: should_escalate_def)

lemma save_other_task:
  assumes "Task.id x \<noteq> Task.id t" and "t \<in> set ts"
  shows "t \<in> set (map (\<lambda>y. if Task.id y = Task.id x then x' else y) ts)"
  using assms by (induction ts) auto

lemma save_task_ids:
  "Task.id x' = Task.id x \<Longrightarrow>
   map Task.id (map (\<lambda>y. if Task.id y = Task.id x then x' else y) ts) = map Task.id ts"
  by (induction ts) auto

lemma escalation_step_frame:
  assumes "Task.id x \<noteq> Task.id t"
    and "map Task.id (tasks (view (fst st))) = ids \<and> t \<in> set (tasks (view (fst st)))
         \<and> filter (\<lambda>n. task_id n = Some (Task.id t)) (all_notifications (fst st)) = N
         \<and> filter (\<lambda>a. entity_id a = Some (Task.id t)) (all_audit_logs (fst st)) = A"
  shows "map Task.id (tasks (view (fst (snd (escalation_step x st))))) = ids
         \<and> t \<in> set (tasks (view (fst (snd (escalation_step x st)))))
         \<and> filter (\<lambda>n. task_id n = Some (Task.id t))
              (all_notifications (fst (snd (escalation_step x st)))) = N
         \<and> filter (\<lambda>a. entity_id a = Some (Task.id t))
              (all_audit_logs (fst (snd (escalation_step x st)))) = A"
  using assms
  by (auto simp: escalation_step_def escalate_task_def Let_def new_notification_def
      new_audit_log_def save_other_task save_task_ids
      split: option.split sum.split prod.split)

lemma candidate_is_other:
  assumes "distinct (map Task.id ts)" and "t \<in> set ts" and "is_escalated t"
    and "x \<in> set ts" and "\<not> is_escalated x"
  shows "Task.id x \<noteq> Task.id t"
proof
  assume "Task.id x = Task.id t"
  with assms(1,2,4) have "x = t" by (meson distinct_map inj_onD)
  with assms(3,5) show False by simp
qed

lemma escalation_pass_frame:
  assumes "distinct (map Task.id (tasks (database w)))"
    and "t \<in> set (tasks (database w))" and "is_escalated t"
  shows "map Task.id (tasks (database (snd (EscalationAgent_run af w))))
           = map Task.id (tasks (database w))
         \<and> t \<in> set (tasks (database (snd (EscalationAgent_run af w))))
         \<and> filter (\<lambda>n. task_id n = Some (Task.id t))
              (notifications (database (snd (EscalationAgent_run af w))))
            = filter (\<lambda>n. task_id n = Some (Task.id t)) (notifications (database w))
         \<and> filter (\<lambda>a. entity_id a = Some (Task.id t))
              (audit_logs (database (snd (EscalationAgent_run af w))))
            = filter (\<lambda>a. entity_id a = Some (Task.id t)) (audit_logs (database w))"
proof -
  let ?ids = "map Task.id (tasks (database w))"
  let ?N = "filter (\<lambda>n. task_id n = Some (Task.id t)) (notifications (database w))"
  let ?A = "filter (\<lambda>a. entity_id a = Some (Task.id t)) (audit_logs (database w))"
  let ?Q = "\<lambda>ts ns as. map Task.id ts = ?ids \<and> t \<in> set ts
              \<and> filter (\<lambda>n. task_id n = Some (Task.id t)) ns = ?N
              \<and> filter (\<lambda>a. entity_id a = Some (Task.id t)) as = ?A"
  let ?P = "\<lambda>st :: session \<times> clock. ?Q (tasks (view (fst st))) (all_notifications (fst st))
              (all_audit_logs (fst st))"
  have loop: "?P (snd (for_loop escalation_step (escalation_candidates (database w))
                         (SessionLocal af w, clock w)))"
  proof (rule for_loop_invariant[where P = ?P])
    show "?P (SessionLocal af w, clock w)" using assms(2) by simp
  next
    fix x and st :: "session \<times> clock"
    assume x: "x \<in> set (escalation_candidates (database w))" and p: "?P st"
    from x have "x \<in> set (tasks (database w))" "\<not> is_escalated x"
      by (simp_all add: escalation_candidates_def)
    then have "Task.id x \<noteq> Task.id t"
      using candidate_is_other[OF assms] by blast
    then show "?P (snd (escalation_step x st))"
      using escalation_step_frame[of x t st ?ids ?N ?A] p by blast
  qed
  show ?thesis
    by (rule cycle_tables[where run = EscalationAgent_run and Q = ?Q, OF escalation_run])
       (use assms(2) loop in simp_all)
qed

lemma escalation_passes_frame:
  assumes "distinct (map Task.id (tasks (database w)))"
    and "t \<in> set (tasks (database w))" and "is_escalated t"
  shows "map Task.id (tasks (database (escalation_passes n af w)))
           = map Task.id (tasks (database w))
         \<and> t \<in> set (tasks (database (escalation_passes n af w)))
         \<and> filter (\<lambda>n. task_id n = Some (Task.id t))
              (notifications (database (escalation_passes n af w)))
            = filter (\<lambda>n. task_id n = Some (Task.id t)) (notifications (database w))
         \<and> filter (\<lambda>a. entity_id a = Some (Task.id t))
              (audit_logs (database (escalation_passes n af w)))
            = filter (\<lambda>a. entity_id a = Some (Task.id t)) (audit_logs (database w))"
  using assms
proof (induction n arbitrary: w)
  case 0
  then show ?case by simp
next
  case (Suc n)
  let ?w = "snd (EscalationAgent_run af w)"
  note f = escalation_pass_frame[OF Suc.prems, of af]
  have d: "distinct (map Task.id (tasks (database ?w)))" using f Suc.prems(1) by simp
  have m: "t \<in> set (tasks (database ?w))" using f by simp
  show ?case using Suc.IH[OF d m Suc.prems(3)] f by simp
qed

text \<open>
  Claim C4. A task whose \<open>is_escalated\<close> flag is set is never escalated again:
  \<open>should_escalate\<close> answers no at its first test, and any number of escalation passes
  leaves the task's row as it is and adds no notification and no audit entry that
  refers to it. (Primary keys are unique.)
\<close>

theorem escalated_task_untouched:
  assumes "distinct (map Task.id (tasks (database w)))"
    and "t \<in> set (tasks (database w))" and "is_escalated t"
  shows "should_escalate t c = (Inr (False, None), c)
         \<and> t \<in> set (tasks (database (escalation_passes n af w)))
         \<and> filter (\<lambda>x. Task.id x = Task.id t) (tasks (database (escalation_passes n af w))) = [t]
         \<and> filter (\<lambda>n. task_id n = Some (Task.id t))
              (notifications (database (escalation_passes n af w)))
            = filter (\<lambda>n. task_id n = Some (Task.id t)) (notifications (database w))
         \<and> filter (\<lambda>a. entity_id a = Some (Task.id t))
              (audit_logs (database (escalation_passes n af w)))
            = filter (\<lambda>a. entity_id a = Some (Task.id t)) (audit_logs (database w))"
proof -
  note f = escalation_passes_frame[OF assms, of n af]
  have d: "distinct (map Task.id (tasks (database (escalation_passes n af w))))"
    using f assms(1) by simp
  have "filter (\<lambda>x. Task.id x = Task.id t) ts = [t]"
    if "distinct (map Task.id ts)" "t \<in> set ts" for ts
    using that by (induction ts) (auto simp: filter_empty_conv image_iff)
  from this[OF d] f should_escalate_escalated[OF assms(3)] show ?thesis by simp
qed

theorem escalated_task_untouched_witness:
  "should_escalate escalated_task \<lparr>current = 100 * hour, ticks = []\<rparr>
     = (Inr (False, None), \<lparr>current = 100 * hour, ticks = []\<rparr>)
   \<and> escalated_task \<in> set (tasks (database (escalation_passes 2 False escalation_world)))
   \<and> filter (\<lambda>x. Task.id x = 2) (tasks (database (escalation_passes 2 False escalation_world)))
       = [escalated_task]
   \<and> filter (\<lambda>n. task_id n = Some 2)
        (notifications (database (escalation_passes 2 False escalation_world))) = []
   \<and> filter (\<lambda>a. entity_id a = Some 2)
        (audit_logs (database (escalation_passes 2 False escalation_world))) = []"
proof -
  have h1: "distinct (map Task.id (tasks (database escalation_world)))"
    by (simp add: escalation_world_def overdue_task_def escalated_task_def)
  have h2: "escalated_task \<in> set (tasks (database escalation_world))"
    by (simp add: escalation_world_def)
  have h3: "is_escalated escalated_task" by (simp add: escalated_task_def)
  have e: "Task.id escalated_task = 2" "notifications (database escalation_world) = []"
    "audit_logs (database escalation_world) = []"
    by (simp_all add: escalation_world_def escalated_task_def)
  show ?thesis
    using escalated_task_untouched[OF h1 h2 h3, of "\<lparr>current = 100 * hour, ticks = []\<rparr>" 2 False] e
    by simp
qed

section \<open>One escalation pass over an overdue task\<close>

lemma for_loop_append:
  "for_loop body (xs @ ys) st =
     (case for_loop body xs st of
        (Inl e, st') \<Rightarrow> (Inl e, st')
      | (Inr u, st') \<Rightarrow> for_loop body ys st')"
  by (induction xs arbitrary: st) (auto split: prod.split sum.split)

lemma for_loop_total:
  assumes "P st"
    and "\<And>x st. x \<in> set xs \<Longrightarrow> P st \<Longrightarrow> fst (body x st) = Inr () \<and> P (snd (body x st))"
  shows "fst (for_loop body xs st) = Inr () \<and> P (snd (for_loop body xs st))"
  using assms
proof (induction xs arbitrary: st)
  case Nil
  then show ?case by simp
next
  case (Cons x xs)
  have step: "fst (body x st) = Inr () \<and> P (snd (body x st))" using Cons.prems by simp
  then obtain st' where b: "body x st = (Inr (), st')" and p: "P st'"
    by (cases "body x st") auto
  have "fst (for_loop body xs st') = Inr () \<and> P (snd (for_loop body xs st'))"
    using Cons.IH[of st'] Cons.prems(2) p by simp
  then show ?case by (simp add: b)
qed

lemma overdue_check_clock: "current c \<le> current (snd (overdue_check t c))"
  using utcnow_mono[of c] utcnow_mono[of "snd (utcnow c)"]
  by (simp add: overdue_check_def Let_def split: option.split)

lemma stale_check_clock: "current c \<le> current (snd (stale_check t c))"
  using utcnow_mono[of c]
  by (simp add: stale_check_def Let_def split: option.split)

lemma should_escalate_clock: "current c \<le> current (snd (should_escalate t c))"
  using overdue_check_clock[of c t] stale_check_clock[of "snd (overdue_check t c)" t]
  by (simp add: should_escalate_def Let_def split: option.split)

lemma should_escalate_returns:
  "confidence_score t \<noteq> None \<Longrightarrow> \<exists>b r. fst (should_escalate t c) = Inr (b, r)"
  by (auto simp: should_escalate_def Let_def split: option.split)

lemma overdue_check_overdue:
  assumes "due_date t = Some d" and "d < current c"
  shows "\<exists>reason. fst (overdue_check t c) = Some reason"
proof -
  have "d < fst (utcnow (snd (utcnow c)))"
    using assms(2) utcnow_mono[of c] by (simp add: utcnow_def)
  moreover have "d < fst (utcnow c)" using assms(2) by (simp add: utcnow_def)
  ultimately show ?thesis
    using assms(1) by (simp add: overdue_check_def Let_def escalation_threshold_hours_def)
qed

lemma should_escalate_overdue:
  assumes "\<not> is_escalated t" and "Task.status t \<noteq> COMPLETED"
    and "due_date t = Some d" and "d < current c"
  shows "\<exists>reason. fst (should_escalate t c) = Inr (True, Some reason)"
  using overdue_check_overdue[OF assms(3,4)] assms(1,2)
  by (auto simp: should_escalate_def)

lemma filter_save_other:
  "i \<noteq> j \<Longrightarrow> Task.id x' = j \<Longrightarrow>
   filter (\<lambda>y. Task.id y = i) (map (\<lambda>y. if Task.id y = j then x' else y) ts)
     = filter (\<lambda>y. Task.id y = i) ts"
  by (induction ts) auto

lemma filter_save_same:
  "Task.id x' = i \<Longrightarrow>
   filter (\<lambda>y. Task.id y = i) (map (\<lambda>y. if Task.id y = i then x' else y) ts)
     = map (\<lambda>y. x') (filter (\<lambda>y. Task.id y = i) ts)"
  by (induction ts) auto

lemma escalation_step_users:
  "users (view (fst (snd (escalation_step x st)))) = users (view (fst st))"
  by (simp add: escalation_step_def escalate_task_def Let_def
      split: option.split sum.split prod.split)

lemma escalation_step_ids:
  "map Task.id (tasks (view (fst (snd (escalation_step x st)))))
     = map Task.id (tasks (view (fst st)))"
  by (simp add: escalation_step_def escalate_task_def Let_def save_task_ids
      split: option.split sum.split prod.split)

lemma escalation_step_clock:
  "current (snd st) \<le> current (snd (snd (escalation_step x st)))"
  using should_escalate_clock[of "snd st" x]
  by (simp add: escalation_step_def Let_def split: option.split sum.split prod.split)

lemma escalation_step_returns:
  "confidence_score x \<noteq> None \<Longrightarrow> fst (escalation_step x st) = Inr ()"
  using should_escalate_returns[of x "snd st"]
  by (auto simp: escalation_step_def Let_def split: option.split sum.split prod.split)

lemma escalation_step_other:
  assumes "Task.id x \<noteq> i"
  shows "rows_of i (fst (snd (escalation_step x st))) = rows_of i (fst st)"
    and "notified_of i (all_notifications (fst (snd (escalation_step x st))))
           = notified_of i (all_notifications (fst st))"
    and "audited_of i (all_audit_logs (fst (snd (escalation_step x st))))
           = audited_of i (all_audit_logs (fst st))"
  using assms
  by (auto simp: escalation_step_def escalate_task_def Let_def new_notification_def
      new_audit_log_def rows_of_def notified_of_def audited_of_def filter_save_other
      split: option.split sum.split prod.split)

lemma escalation_step_target:
  assumes "\<not> is_escalated t" and "Task.status t \<noteq> COMPLETED"
    and "due_date t = Some d" and "d < current (snd st)"
    and "find (\<lambda>u. role u = MANAGER \<and> is_active u) (users (view (fst st))) = Some m"
    and "rows_of (Task.id t) (fst st) = [t]"
  shows "fst (escalation_step t st) = Inr ()"
    and "rows_of (Task.id t) (fst (snd (escalation_step t st)))
           = [t\<lparr>is_escalated := True, escalated_to := Some (User.id m),
                Task.status := ESCALATED\<rparr>]"
    and "notified_of (Task.id t) (all_notifications (fst (snd (escalation_step t st))))
           = notified_of (Task.id t) (all_notifications (fst st))
             @ (if assigned_to t = User.id m then [(''escalation'', User.id m)]
                else [(''escalation'', User.id m), (''escalation'', assigned_to t)])"
    and "audited_of (Task.id t) (all_audit_logs (fst (snd (escalation_step t st))))
           = audited_of (Task.id t) (all_audit_logs (fst st)) @ [''task_escalated'']"
proof -
  obtain reason where r: "fst (should_escalate t (snd st)) = Inr (True, Some reason)"
    using should_escalate_overdue[OF assms(1-4)] by blast
  have f: "find_manager_to_escalate_to (view (autoflushed (fst st))) = Some m"
    using assms(5) by (simp add: find_manager_to_escalate_to_def)
  have e: "escalation_step t st
             = (Inr (), escalate_task t reason m (autoflushed (fst st)),
                snd (should_escalate t (snd st)))"
    by (simp add: escalation_step_def r f Let_def)
  show "fst (escalation_step t st) = Inr ()" by (simp add: e)
  show "rows_of (Task.id t) (fst (snd (escalation_step t st)))
           = [t\<lparr>is_escalated := True, escalated_to := Some (User.id m),
                Task.status := ESCALATED\<rparr>]"
    using assms(6) by (simp add: e escalate_task_def Let_def rows_of_def filter_save_same)
  show "notified_of (Task.id t) (all_notifications (fst (snd (escalation_step t st))))
           = notified_of (Task.id t) (all_notifications (fst st))
             @ (if assigned_to t = User.id m then [(''escalation'', User.id m)]
                else [(''escalation'', User.id m), (''escalation'', assigned_to t)])"
    by (simp add: e escalate_task_def Let_def notified_of_def new_notification_def)
  show "audited_of (Task.id t) (all_audit_logs (fst (snd (escalation_step t st))))
           = audited_of (Task.id t) (all_audit_logs (fst st)) @ [''task_escalated'']"
    by (simp add: e escalate_task_def Let_def audited_of_def new_audit_log_def)
qed

lemma unique_row:
  "distinct (map Task.id ts) \<Longrightarrow> t \<in> set ts \<Longrightarrow> filter (\<lambda>x. Task.id x = Task.id t) ts = [t]"
  by (induction ts) (auto simp: filter_empty_conv image_iff)

lemma escalation_loop_others:
  assumes "\<forall>x\<in>set xs. Task.id x \<noteq> i \<and> confidence_score x \<noteq> None"
    and "users (view (fst st)) = U" and "c0 \<le> current (snd st)"
  shows "fst (for_loop escalation_step xs st) = Inr ()
     \<and> users (view (fst (snd (for_loop escalation_step xs st)))) = U
     \<and> c0 \<le> current (snd (snd (for_loop escalation_step xs st)))
     \<and> rows_of i (fst (snd (for_loop escalation_step xs st))) = rows_of i (fst st)
     \<and> notified_of i (all_notifications (fst (snd (for_loop escalation_step xs st))))
         = notified_of i (all_notifications (fst st))
     \<and> audited_of i (all_audit_logs (fst (snd (for_loop escalation_step xs st))))
         = audited_of i (all_audit_logs (fst st))"
proof -
  let ?P = "\<lambda>st' :: session \<times> clock. users (view (fst st')) = U \<and> c0 \<le> current (snd st')
     \<and> rows_of i (fst st') = rows_of i (fst st)
     \<and> notified_of i (all_notifications (fst st')) = notified_of i (all_notifications (fst st))
     \<and> audited_of i (all_audit_logs (fst st')) = audited_of i (all_audit_logs (fst st))"
  have "fst (for_loop escalation_step xs st) = Inr () \<and> ?P (snd (for_loop escalation_step xs st))"
  proof (rule for_loop_total[where P = ?P])
    show "?P st" using assms(2,3) by simp
  next
    fix x and st' :: "session \<times> clock"
    assume x: "x \<in> set xs" and p: "?P st'"
    from x assms(1) have o: "Task.id x \<noteq> i" and c: "confidence_score x \<noteq> None" by auto
    show "fst (escalation_step x st') = Inr () \<and> ?P (snd (escalation_step x st'))"
      using p escalation_step_returns[OF c, of st'] escalation_step_users[of x st']
        escalation_step_clock[of st' x] escalation_step_other[OF o, of st']
      by simp
  qed
  then show ?thesis by simp
qed

text \<open>
  Claim C2. In a store with unique primary keys and no NULL confidence score, take a
  task that was due five hours before the pass starts, is in progress, not escalated,
  with confidence 80, and let \<open>m\<close> be the first active manager. After one escalation
  pass the task's row has status escalated, the flag set and \<open>escalated_to\<close> the id of
  \<open>m\<close>; the notifications that refer to the task are the earlier ones followed by one
  for \<open>m\<close> and, if the assignee is someone else, one for the assignee; the audit entries
  that refer to it are the earlier ones followed by one \<open>task_escalated\<close>.
\<close>

theorem overdue_task_is_escalated:
  assumes "distinct (map Task.id (tasks (database w)))"
    and "t \<in> set (tasks (database w))"
    and "due_date t = Some (current (clock w) - 5 * hour)"
    and "Task.status t = IN_PROGRESS" and "\<not> is_escalated t"
    and "confidence_score t = Some 80"
    and "find (\<lambda>u. role u = MANAGER \<and> is_active u) (users (database w)) = Some m"
    and "\<forall>x\<in>set (tasks (database w)). confidence_score x \<noteq> None"
  shows "fst (EscalationAgent_run af w) = None
     \<and> filter (\<lambda>x. Task.id x = Task.id t) (tasks (database (snd (EscalationAgent_run af w))))
         = [t\<lparr>is_escalated := True, escalated_to := Some (User.id m),
              Task.status := ESCALATED\<rparr>]
     \<and> notified_of (Task.id t) (notifications (database (snd (EscalationAgent_run af w))))
         = notified_of (Task.id t) (notifications (database w))
           @ (if assigned_to t = User.id m then [(''escalation'', User.id m)]
              else [(''escalation'', User.id m), (''escalation'', assigned_to t)])
     \<and> audited_of (Task.id t) (audit_logs (database (snd (EscalationAgent_run af w))))
         = audited_of (Task.id t) (audit_logs (database w)) @ [''task_escalated'']"
proof -
  let ?i = "Task.id t"
  let ?cs = "escalation_candidates (database w)"
  let ?st0 = "(SessionLocal af w, clock w)"
  let ?t' = "t\<lparr>is_escalated := True, escalated_to := Some (User.id m), Task.status := ESCALATED\<rparr>"
  let ?new = "if assigned_to t = User.id m then [(''escalation'', User.id m)]
              else [(''escalation'', User.id m), (''escalation'', assigned_to t)]"
  have tc: "t \<in> set ?cs" using assms(2,4,5) by (simp add: escalation_candidates_def)
  then obtain pre post where split: "?cs = pre @ t # post" by (meson split_list)
  have dc: "distinct (map Task.id ?cs)"
    using assms(1) by (simp add: escalation_candidates_def distinct_map_filter)
  have sub: "set ?cs \<subseteq> set (tasks (database w))" by (auto simp: escalation_candidates_def)
  have ids: "?i \<notin> Task.id ` set pre" "?i \<notin> Task.id ` set post"
    using dc unfolding split by auto
  have subs: "set pre \<subseteq> set (tasks (database w))" "set post \<subseteq> set (tasks (database w))"
    using sub unfolding split by auto
  have others: "\<forall>x\<in>set pre. Task.id x \<noteq> ?i \<and> confidence_score x \<noteq> None"
    "\<forall>x\<in>set post. Task.id x \<noteq> ?i \<and> confidence_score x \<noteq> None"
    using ids subs assms(8) by (metis image_eqI subsetD)+
  have r0: "rows_of ?i (SessionLocal af w) = [t]"
    using unique_row[OF assms(1,2)] by (simp add: rows_of_def)
  \<comment> \<open>the tasks before it\<close>
  let ?L1 = "for_loop escalation_step pre ?st0"
  note p1 = escalation_loop_others[OF others(1), of ?st0 "users (database w)" "current (clock w)"]
  then have l1: "?L1 = (Inr (), snd ?L1)" by (metis SessionLocal_fields(2) fst_conv order_refl prod.collapse snd_conv)
  \<comment> \<open>the task itself\<close>
  let ?st1 = "snd ?L1"
  have due: "current (clock w) - 5 * hour < current (snd ?st1)"
    using p1 by (simp add: hour_def)
  have mgr: "find (\<lambda>u. role u = MANAGER \<and> is_active u) (users (view (fst ?st1))) = Some m"
    using p1 assms(7) by simp
  have rows1: "rows_of ?i (fst ?st1) = [t]" using p1 r0 by simp
  have nc: "Task.status t \<noteq> COMPLETED" using assms(4) by simp
  note p2 = escalation_step_target[OF assms(5) nc assms(3) due mgr rows1]
  let ?st2 = "snd (escalation_step t ?st1)"
  have l2: "escalation_step t ?st1 = (Inr (), ?st2)" using p2(1) by (metis prod.collapse)
  \<comment> \<open>the tasks after it\<close>
  let ?L3 = "for_loop escalation_step post ?st2"
  have u2: "users (view (fst ?st2)) = users (database w)"
    using escalation_step_users[of t ?st1] p1 by simp
  have c2: "current (clock w) \<le> current (snd ?st2)"
    using escalation_step_clock[of ?st1 t] p1 by simp
  note p3 = escalation_loop_others[OF others(2) u2 c2]
  then have l3: "?L3 = (Inr (), snd ?L3)" by (metis prod.collapse)
  have L: "for_loop escalation_step ?cs ?st0 = (Inr (), fst (snd ?L3), snd (snd ?L3))"
    unfolding split for_loop_append
    by (subst l1, simp, subst l2, simp, subst l3, simp)
  have run: "snd (EscalationAgent_run af w)
      = snd (record_success ''EscalationAgent'' (int (length ?cs)) (fst (snd ?L3))
               (w\<lparr>clock := snd (snd ?L3)\<rparr>))"
    using escalation_run[OF L] by simp
  have "fst (EscalationAgent_run af w) = None"
    by (simp add: EscalationAgent_run_def agent_run_no_exception)
  moreover have "filter (\<lambda>x. Task.id x = ?i) (tasks (database (snd (EscalationAgent_run af w)))) = [?t']"
    using p3 p2(2) by (simp add: run record_success_database rows_of_def)
  moreover have "notified_of ?i (notifications (database (snd (EscalationAgent_run af w))))
         = notified_of ?i (notifications (database w)) @ ?new"
    using p3 p2(3) p1 by (simp add: run record_success_database)
  moreover have "audited_of ?i (audit_logs (database (snd (EscalationAgent_run af w))))
         = audited_of ?i (audit_logs (database w)) @ [''task_escalated'']"
    using p3 p2(4) p1 by (simp add: run record_success_database)
  ultimately show ?thesis by blast
qed

theorem overdue_task_is_escalated_witness:
  "fst (EscalationAgent_run False escalation_world) = None
   \<and> filter (\<lambda>x. Task.id x = 1)
        (tasks (database (snd (EscalationAgent_run False escalation_world))))
       = [overdue_task\<lparr>is_escalated := True, escalated_to := Some 2, Task.status := ESCALATED\<rparr>]
   \<and> notified_of 1 (notifications (database (snd (EscalationAgent_run False escalation_world))))
       = [(''escalation'', 2), (''escalation'', 3)]
   \<and> audited_of 1 (audit_logs (database (snd (EscalationAgent_run False escalation_world))))
       = [''task_escalated'']"
proof -
  have h1: "distinct (map Task.id (tasks (database escalation_world)))"
    by (simp add: escalation_world_def overdue_task_def escalated_task_def)
  have h2: "overdue_task \<in> set (tasks (database escalation_world))"
    by (simp add: escalation_world_def)
  have h3: "due_date overdue_task = Some (current (clock escalation_world) - 5 * hour)"
    by (simp add: escalation_world_def overdue_task_def hour_def)
  have h4: "Task.status overdue_task = IN_PROGRESS" by (simp add: overdue_task_def)
  have h5: "\<not> is_escalated overdue_task" by (simp add: overdue_task_def)
  have h6: "confidence_score overdue_task = Some 80" by (simp add: overdue_task_def)
  have h7: "find (\<lambda>u. role u = MANAGER \<and> is_active u) (users (database escalation_world))
              = Some manager_user"
    by (simp add: escalation_world_def manager_user_def)
  have h8: "\<forall>x\<in>set (tasks (database escalation_world)). confidence_score x \<noteq> None"
    by (simp add: escalation_world_def overdue_task_def escalated_task_def)
  have e: "notified_of 1 (notifications (database escalation_world)) = []"
    "audited_of 1 (audit_logs (database escalation_world)) = []"
    "Task.id overdue_task = 1" "assigned_to overdue_task = 3" "User.id manager_user = 2"
    by (simp_all add: escalation_world_def notified_of_def audited_of_def overdue_task_def
        manager_user_def)
  show ?thesis
    using overdue_task_is_escalated[OF h1 h2 h3 h4 h5 h6 h7 h8, of False] e by simp
qed

section \<open>The notification cycle, row by row\<close>

lemma fold_max_ge: "(a::nat) \<le> fold max xs a \<and> (\<forall>x\<in>set xs. x \<le> fold max xs a)"
proof (induction xs arbitrary: a)
  case Nil
  then show ?case by simp
next
  case (Cons y ys)
  have "max y a \<le> fold max ys (max y a)" "\<forall>x\<in>set ys. x \<le> fold max ys (max y a)"
    using Cons.IH[of "max y a"] by auto
  then show ?case by auto
qed

lemma next_id_fresh: "next_id ids \<notin> set ids"
  using fold_max_ge[of 0 ids] by (auto simp: next_id_def)

lemma try_send [simp]: "try_except (send_try now n) (send_except n) = send_try now n"
  by (rule ext) (simp add: try_except_def send_try_def)

lemma try_retry [simp]: "try_except (retry_try n) (retry_except n) = retry_try n"
  by (rule ext) (simp add: try_except_def retry_try_def Let_def)

lemma filter_singleton: "filter P xs = [r] \<Longrightarrow> r \<in> set xs \<and> P r"
proof -
  assume "filter P xs = [r]"
  then have "r \<in> set (filter P xs)" by simp
  then show ?thesis by simp
qed

lemma tracks_id: "tracks i r s \<Longrightarrow> Notification.id r = i"
  using filter_singleton[of "\<lambda>x. Notification.id x = i" "notifications (view s)" r]
  by (simp add: tracks_def)

lemma tracks_flush: "tracks i r s \<Longrightarrow> tracks i r (flush s)"
  by (simp add: tracks_def all_notifications_def)

lemma tracks_autoflushed: "tracks i r s \<Longrightarrow> tracks i r (autoflushed s)"
  by (simp add: autoflushed_def tracks_flush)

lemma tracks_add_audit_log [simp]: "tracks i r (add_audit_log a s) = tracks i r s"
  by (simp add: tracks_def)

lemma tracks_save_agent_status [simp]: "tracks i r (save_agent_status a s) = tracks i r s"
  by (simp add: tracks_def)

lemma tracks_add_notification:
  assumes "tracks i r s"
  shows "tracks i r (add_notification n s)"
proof -
  have "r \<in> set (notifications (view s))" "Notification.id r = i"
    using assms filter_singleton[of "\<lambda>x. Notification.id x = i" "notifications (view s)" r]
    by (simp_all add: tracks_def)
  then have "i \<in> set (map Notification.id (all_notifications s))"
    by (auto simp: all_notifications_def)
  then have "next_id (map Notification.id (all_notifications s)) \<noteq> i"
    using next_id_fresh[of "map Notification.id (all_notifications s)"] by auto
  then show ?thesis using assms by (simp add: tracks_def)
qed

lemma filter_replace_other:
  "Notification.id x' = j \<Longrightarrow> i \<noteq> j \<Longrightarrow>
   filter (\<lambda>y. Notification.id y = i) (map (\<lambda>y. if Notification.id y = j then x' else y) ns)
     = filter (\<lambda>y. Notification.id y = i) ns"
  by (induction ns) auto

lemma filter_replace_same:
  "Notification.id x' = i \<Longrightarrow>
   filter (\<lambda>y. Notification.id y = i) (map (\<lambda>y. if Notification.id y = i then x' else y) ns)
     = map (\<lambda>y. x') (filter (\<lambda>y. Notification.id y = i) ns)"
  by (induction ns) auto

lemma tracks_save_other:
  "Notification.id x' \<noteq> i \<Longrightarrow> tracks i r (save_notification x' s) = tracks i r s"
  by (simp add: tracks_def filter_replace_other)

lemma tracks_save_same:
  "Notification.id x' = i \<Longrightarrow> tracks i r s \<Longrightarrow> tracks i x' (save_notification x' s)"
  by (simp add: tracks_def filter_replace_same)

lemma tracks_database:
  "tracks i r s \<Longrightarrow> filter (\<lambda>x. Notification.id x = i) (all_notifications s) = [r]"
  by (simp add: tracks_def all_notifications_def)

subsection \<open>Scheduling reminders\<close>

lemma create_reminder_returns:
  "due_date t \<noteq> None \<Longrightarrow> \<exists>r. fst (create_reminder t h s) = Inr r"
  by (auto simp: create_reminder_def Let_def split: option.split)

lemma reminder_step_returns:
  "due_date t \<noteq> None \<Longrightarrow> fst (reminder_step now t h st) = Inr ()"
  using create_reminder_returns[of t h "fst st"]
  by (auto simp: reminder_step_def Let_def split: option.split sum.split)

lemma reminder_step_tracks:
  "tracks i r (fst st) \<Longrightarrow> tracks i r (fst (snd (reminder_step now t h st)))"
  by (auto simp: reminder_step_def Let_def create_reminder_session tracks_add_notification
      tracks_autoflushed split: option.split sum.split)

lemma upcoming_tasks_due: "t \<in> set (upcoming_tasks now db) \<Longrightarrow> due_date t \<noteq> None"
  by (auto simp: upcoming_tasks_def split: option.splits)

lemma schedule_loop:
  fixes st :: "session \<times> int"
  assumes "\<forall>t\<in>set ts. due_date t \<noteq> None" and "P (fst st)"
    and "\<And>t h st. P (fst st) \<Longrightarrow> P (fst (snd (reminder_step now t h st)))"
  shows "fst (for_loop (\<lambda>task. for_loop (reminder_step now task) hs) ts st) = Inr ()
         \<and> P (fst (snd (for_loop (\<lambda>task. for_loop (reminder_step now task) hs) ts st)))"
proof (rule for_loop_total[where P = "\<lambda>st. P (fst st)"])
  show "P (fst st)" by (rule assms(2))
next
  fix t and st' :: "session \<times> int"
  assume t: "t \<in> set ts" and p: "P (fst st')"
  show "fst (for_loop (reminder_step now t) hs st') = Inr ()
        \<and> P (fst (snd (for_loop (reminder_step now t) hs st')))"
  proof (rule for_loop_total[where P = "\<lambda>st. P (fst st)"])
    show "P (fst st')" by (rule p)
  next
    fix h and st'' :: "session \<times> int"
    assume "P (fst st'')"
    then show "fst (reminder_step now t h st'') = Inr ()
               \<and> P (fst (snd (reminder_step now t h st'')))"
      using reminder_step_returns[of t now h st''] t assms(1,3) by blast
  qed
qed

lemma schedule_preserves:
  assumes "P (autoflushed s)"
    and "\<And>t h st now. P (fst st) \<Longrightarrow> P (fst (snd (reminder_step now t h st)))"
  shows "\<exists>k. fst (schedule_upcoming_reminders s c) = Inr k"
    and "P (fst (snd (schedule_upcoming_reminders s c)))"
    and "snd (snd (schedule_upcoming_reminders s c)) = snd (utcnow c)"
proof -
  let ?now = "fst (utcnow c)"
  let ?ts = "upcoming_tasks ?now (view (autoflushed s))"
  let ?L = "for_loop (\<lambda>task. for_loop (reminder_step ?now task) reminder_hours) ?ts
              (autoflushed s, 0)"
  have d: "\<forall>t\<in>set ?ts. due_date t \<noteq> None" using upcoming_tasks_due by blast
  have f: "fst ?L = Inr () \<and> P (fst (snd ?L))"
    using schedule_loop[OF d, of P "(autoflushed s, 0)" ?now reminder_hours] assms by simp
  then have eq: "schedule_upcoming_reminders s c
                   = (Inr (snd (snd ?L)), fst (snd ?L), snd (utcnow c))"
    by (simp add: schedule_upcoming_reminders_def Let_def case_prod_beta)
  show "\<exists>k. fst (schedule_upcoming_reminders s c) = Inr k" by (simp add: eq)
  show "P (fst (snd (schedule_upcoming_reminders s c)))" using f by (simp add: eq)
  show "snd (snd (schedule_upcoming_reminders s c)) = snd (utcnow c)" by (simp add: eq)
qed

subsection \<open>Sending and retrying\<close>

lemma send_try_returns [simp]: "fst (send_try now n st) = Inr ()"
  by (simp add: send_try_def)

lemma retry_try_returns [simp]: "fst (retry_try n st) = Inr ()"
  by (simp add: retry_try_def Let_def)

lemma filter_swap: "filter P (filter Q xs) = filter Q (filter P xs)"
  by (induction xs) auto

lemma loop_others:
  fixes body :: "Notification \<Rightarrow> session \<times> 'b \<Rightarrow> (exn + unit) \<times> session \<times> 'b"
  assumes "\<And>x st. fst (body x st) = Inr ()"
    and "\<And>x st. Notification.id x \<noteq> i \<Longrightarrow> tracks i r (fst st)
           \<Longrightarrow> tracks i r (fst (snd (body x st)))"
    and "\<forall>x\<in>set xs. Notification.id x \<noteq> i" and "tracks i r (fst st)"
  shows "fst (for_loop body xs st) = Inr () \<and> tracks i r (fst (snd (for_loop body xs st)))"
proof (rule for_loop_total[where P = "\<lambda>st. tracks i r (fst st)"])
  show "tracks i r (fst st)" by (rule assms(4))
next
  fix x and st' :: "session \<times> 'b"
  assume x: "x \<in> set xs" and t: "tracks i r (fst st')"
  have "Notification.id x \<noteq> i" using assms(3) x by blast
  then have "tracks i r (fst (snd (body x st')))" using t by (rule assms(2))
  then show "fst (body x st') = Inr () \<and> tracks i r (fst (snd (body x st')))"
    using assms(1)[of x st'] by simp
qed

lemma filter_single_split:
  "filter P xs = [r] \<Longrightarrow>
   \<exists>pre post. xs = pre @ r # post \<and> (\<forall>x\<in>set pre. \<not> P x) \<and> (\<forall>x\<in>set post. \<not> P x)"
proof (induction xs)
  case Nil
  then show ?case by simp
next
  case (Cons a xs)
  show ?case
  proof (cases "P a")
    case True
    with Cons.prems have "a = r" and "filter P xs = []" by simp_all
    then have "a # xs = [] @ r # xs \<and> (\<forall>x\<in>set []. \<not> P x) \<and> (\<forall>x\<in>set xs. \<not> P x)"
      by (simp add: filter_empty_conv)
    then show ?thesis by blast
  next
    case False
    with Cons.prems have "filter P xs = [r]" by simp
    then obtain pre post where "xs = pre @ r # post" "\<forall>x\<in>set pre. \<not> P x"
      "\<forall>x\<in>set post. \<not> P x"
      using Cons.IH by blast
    then have "a # xs = (a # pre) @ r # post \<and> (\<forall>x\<in>set (a # pre). \<not> P x)
               \<and> (\<forall>x\<in>set post. \<not> P x)"
      using False by simp
    then show ?thesis by blast
  qed
qed

lemma for_loop_Inr_Cons:
  "fst (body x st) = Inr () \<Longrightarrow> for_loop body (x # xs) st = for_loop body xs (snd (body x st))"
  by (cases "body x st") auto

lemma for_loop_Inr_append:
  "fst (for_loop body xs st) = Inr () \<Longrightarrow>
   for_loop body (xs @ ys) st = for_loop body ys (snd (for_loop body xs st))"
  by (cases "for_loop body xs st") (auto simp: for_loop_append)

lemma loop_row:
  fixes body :: "Notification \<Rightarrow> session \<times> 'b \<Rightarrow> (exn + unit) \<times> session \<times> 'b"
  assumes ret: "\<And>x st. fst (body x st) = Inr ()"
    and other: "\<And>x st r'. Notification.id x \<noteq> i \<Longrightarrow> tracks i r' (fst st)
           \<Longrightarrow> tracks i r' (fst (snd (body x st)))"
    and self: "\<And>st. tracks i r (fst st) \<Longrightarrow> \<exists>r'. G r' \<and> tracks i r' (fst (snd (body r st)))"
    and once: "filter (\<lambda>x. Notification.id x = i) xs = (if sel then [r] else [])"
    and start: "tracks i r (fst st)"
  shows "fst (for_loop body xs st) = Inr ()
         \<and> (\<exists>r'. (if sel then G r' else r' = r)
                \<and> tracks i r' (fst (snd (for_loop body xs st))))"
proof (cases sel)
  case False
  then have "\<forall>x\<in>set xs. Notification.id x \<noteq> i"
    using once by (simp add: filter_empty_conv)
  from loop_others[OF ret other this start] have
    "fst (for_loop body xs st) = Inr ()" "tracks i r (fst (snd (for_loop body xs st)))"
    by simp_all
  with False show ?thesis by (intro conjI exI[of _ r]) simp_all
next
  case True
  then have "filter (\<lambda>x. Notification.id x = i) xs = [r]" using once by simp
  then obtain pre post where xs: "xs = pre @ r # post"
    and pre: "\<forall>x\<in>set pre. Notification.id x \<noteq> i"
    and post: "\<forall>x\<in>set post. Notification.id x \<noteq> i"
    using filter_single_split[of "\<lambda>x. Notification.id x = i" xs r] by blast
  let ?L1 = "for_loop body pre st"
  have p1: "fst ?L1 = Inr () \<and> tracks i r (fst (snd ?L1))"
    by (rule loop_others[OF ret other pre start])
  obtain r' where g: "G r'" and t2: "tracks i r' (fst (snd (body r (snd ?L1))))"
    using self[of "snd ?L1"] p1 by blast
  let ?L3 = "for_loop body post (snd (body r (snd ?L1)))"
  have p3: "fst ?L3 = Inr () \<and> tracks i r' (fst (snd ?L3))"
    by (rule loop_others[OF ret other post t2])
  have "for_loop body xs st = for_loop body (r # post) (snd ?L1)"
    unfolding xs using p1 by (intro for_loop_Inr_append) simp
  also have "\<dots> = ?L3" by (rule for_loop_Inr_Cons) (rule ret)
  finally have e: "for_loop body xs st = ?L3" .
  have "fst (for_loop body xs st) = Inr ()" using p3 by (simp only: e)
  moreover have "tracks i r' (fst (snd (for_loop body xs st)))" using p3 by (simp only: e)
  ultimately show ?thesis using g True by (intro conjI exI[of _ r']) simp_all
qed

lemma send_try_other:
  "Notification.id x \<noteq> i \<Longrightarrow> tracks i r (fst st)
   \<Longrightarrow> tracks i r (fst (snd (send_try now x st)))"
  by (simp add: send_try_def tracks_save_other)

lemma send_try_self:
  "tracks i r (fst st) \<Longrightarrow>
   tracks i (r\<lparr>Notification.status := SENT, sent_at := Some now\<rparr>)
     (fst (snd (send_try now r st)))"
  using tracks_id[of i r "fst st"]
  by (simp add: send_try_def tracks_save_same)

lemma retry_try_other:
  "Notification.id x \<noteq> i \<Longrightarrow> tracks i r (fst st)
   \<Longrightarrow> tracks i r (fst (snd (retry_try x st)))"
  by (simp add: retry_try_def Let_def tracks_save_other)

lemma retry_try_self:
  "tracks i r (fst st) \<Longrightarrow>
   \<exists>r'. (\<exists>ts. r' = r\<lparr>Notification.status := SENT, sent_at := Some ts\<rparr>)
        \<and> tracks i r' (fst (snd (retry_try r st)))"
proof -
  assume t: "tracks i r (fst st)"
  let ?r' = "r\<lparr>Notification.status := SENT, sent_at := Some (fst (utcnow (fst (snd st))))\<rparr>"
  have "Notification.id ?r' = i" using tracks_id[OF t] by simp
  then have "tracks i ?r' (save_notification ?r' (fst st))"
    using t by (rule tracks_save_same)
  then have "tracks i ?r' (fst (snd (retry_try r st)))"
    by (simp add: retry_try_def Let_def)
  then show ?thesis by blast
qed

lemma process_unfold:
  "process_scheduled_notifications s c =
     (let L = for_loop (send_try (fst (utcnow c)))
                (due_notifications (fst (utcnow c)) (view (autoflushed s))) (autoflushed s, 0)
      in (case fst L of Inl e \<Rightarrow> Inl e | Inr u \<Rightarrow> Inr (snd (snd L)), fst (snd L), snd (utcnow c)))"
  by (simp add: process_scheduled_notifications_def Let_def case_prod_beta split: sum.split)

lemma retry_unfold:
  "retry_failed_notifications s c =
     (let L = for_loop retry_try (retryable_notifications (view (autoflushed s)))
                (autoflushed s, c, 0)
      in (case fst L of Inl e \<Rightarrow> Inl e | Inr u \<Rightarrow> Inr (snd (snd (snd L))),
          fst (snd L), fst (snd (snd L))))"
  by (simp add: retry_failed_notifications_def Let_def case_prod_beta split: sum.split)

lemma process_row:
  assumes "tracks i r s"
  shows "\<exists>k. fst (process_scheduled_notifications s c) = Inr k"
    and "tracks i (if Notification.status r = NPENDING
                      \<and> (case scheduled_at r of None \<Rightarrow> False | Some t \<Rightarrow> t \<le> fst (utcnow c))
                   then r\<lparr>Notification.status := SENT, sent_at := Some (fst (utcnow c))\<rparr>
                   else r)
           (fst (snd (process_scheduled_notifications s c)))"
    and "snd (snd (process_scheduled_notifications s c)) = snd (utcnow c)"
proof -
  let ?now = "fst (utcnow c)"
  let ?sel = "Notification.status r = NPENDING
              \<and> (case scheduled_at r of None \<Rightarrow> False | Some t \<Rightarrow> t \<le> ?now)"
  let ?xs = "due_notifications ?now (view (autoflushed s))"
  let ?L = "for_loop (send_try ?now) ?xs (autoflushed s, 0::int)"
  have t0: "tracks i r (fst (autoflushed s, 0::int))" using assms by (simp add: tracks_autoflushed)
  have "filter (\<lambda>x. Notification.id x = i) (notifications (view (autoflushed s))) = [r]"
    using t0 by (simp add: tracks_def)
  moreover have "filter (\<lambda>x. Notification.id x = i) ?xs
      = filter (\<lambda>n. Notification.status n = NPENDING
                   \<and> (case scheduled_at n of None \<Rightarrow> False | Some t \<Rightarrow> t \<le> ?now))
          (filter (\<lambda>x. Notification.id x = i) (notifications (view (autoflushed s))))"
    unfolding due_notifications_def by (rule filter_swap)
  ultimately have once: "filter (\<lambda>x. Notification.id x = i) ?xs = (if ?sel then [r] else [])"
    by simp
  have self: "\<And>st :: session \<times> int. tracks i r (fst st) \<Longrightarrow>
      \<exists>r'. r' = r\<lparr>Notification.status := SENT, sent_at := Some ?now\<rparr>
           \<and> tracks i r' (fst (snd (send_try ?now r st)))"
    using send_try_self by blast
  have res: "fst ?L = Inr ()
     \<and> (\<exists>r'. (if ?sel then r' = r\<lparr>Notification.status := SENT, sent_at := Some ?now\<rparr> else r' = r)
            \<and> tracks i r' (fst (snd ?L)))"
    by (rule loop_row[where body = "send_try ?now", OF send_try_returns send_try_other self once t0])
  show "\<exists>k. fst (process_scheduled_notifications s c) = Inr k"
    using res by (simp add: process_unfold Let_def)
  show "tracks i (if ?sel then r\<lparr>Notification.status := SENT, sent_at := Some ?now\<rparr> else r)
           (fst (snd (process_scheduled_notifications s c)))"
    using res by (auto simp: process_unfold Let_def)
  show "snd (snd (process_scheduled_notifications s c)) = snd (utcnow c)"
    by (simp add: process_unfold Let_def)
qed

lemma retry_row:
  assumes "tracks i r s"
  shows "\<exists>k. fst (retry_failed_notifications s c) = Inr k"
    and "\<exists>r'. (if Notification.status r = FAILED \<and> retry_count r < max_retries r
               then \<exists>ts. r' = r\<lparr>Notification.status := SENT, sent_at := Some ts\<rparr>
               else r' = r)
             \<and> tracks i r' (fst (snd (retry_failed_notifications s c)))"
proof -
  let ?sel = "Notification.status r = FAILED \<and> retry_count r < max_retries r"
  let ?xs = "retryable_notifications (view (autoflushed s))"
  let ?L = "for_loop retry_try ?xs (autoflushed s, c, 0::int)"
  have t0: "tracks i r (fst (autoflushed s, c, 0::int))"
    using assms by (simp add: tracks_autoflushed)
  have "filter (\<lambda>x. Notification.id x = i) (notifications (view (autoflushed s))) = [r]"
    using t0 by (simp add: tracks_def)
  moreover have "filter (\<lambda>x. Notification.id x = i) ?xs
      = filter (\<lambda>n. Notification.status n = FAILED \<and> retry_count n < max_retries n)
          (filter (\<lambda>x. Notification.id x = i) (notifications (view (autoflushed s))))"
    unfolding retryable_notifications_def by (rule filter_swap)
  ultimately have once: "filter (\<lambda>x. Notification.id x = i) ?xs = (if ?sel then [r] else [])"
    by simp
  have res: "fst ?L = Inr ()
     \<and> (\<exists>r'. (if ?sel then \<exists>ts. r' = r\<lparr>Notification.status := SENT, sent_at := Some ts\<rparr>
               else r' = r)
            \<and> tracks i r' (fst (snd ?L)))"
    by (rule loop_row[where body = retry_try, OF retry_try_returns retry_try_other
          retry_try_self once t0])
  show "\<exists>k. fst (retry_failed_notifications s c) = Inr k"
    using res by (simp add: retry_unfold Let_def)
  show "\<exists>r'. (if ?sel then \<exists>ts. r' = r\<lparr>Notification.status := SENT, sent_at := Some ts\<rparr>
               else r' = r)
             \<and> tracks i r' (fst (snd (retry_failed_notifications s c)))"
    using res by (simp add: retry_unfold Let_def)
qed

subsection \<open>One cycle\<close>

lemma process_preserves:
  assumes "P (autoflushed s)"
    and "\<And>x (st :: session \<times> int).
           x \<in> set (notifications (view (autoflushed s))) \<Longrightarrow> P (fst st)
           \<Longrightarrow> P (fst (snd (send_try (fst (utcnow c)) x st)))"
  shows "P (fst (snd (process_scheduled_notifications s c)))"
proof -
  let ?xs = "due_notifications (fst (utcnow c)) (view (autoflushed s))"
  have "P (fst (snd (for_loop (send_try (fst (utcnow c))) ?xs (autoflushed s, 0))))"
  proof (rule for_loop_invariant[where P = "\<lambda>st. P (fst st)"])
    show "P (fst (autoflushed s, 0::int))" using assms(1) by simp
  next
    fix x and st :: "session \<times> int"
    assume "x \<in> set ?xs" and p: "P (fst st)"
    then have "x \<in> set (notifications (view (autoflushed s)))"
      by (simp add: due_notifications_def)
    then show "P (fst (snd (send_try (fst (utcnow c)) x st)))" using p by (rule assms(2))
  qed
  then show ?thesis by (simp add: process_unfold Let_def)
qed

lemma retry_preserves:
  assumes "P (autoflushed s)"
    and "\<And>x (st :: session \<times> clock \<times> int).
           x \<in> set (notifications (view (autoflushed s))) \<Longrightarrow> P (fst st)
           \<Longrightarrow> P (fst (snd (retry_try x st)))"
  shows "P (fst (snd (retry_failed_notifications s c)))"
proof -
  let ?xs = "retryable_notifications (view (autoflushed s))"
  have "P (fst (snd (for_loop retry_try ?xs (autoflushed s, c, 0))))"
  proof (rule for_loop_invariant[where P = "\<lambda>st. P (fst st)"])
    show "P (fst (autoflushed s, c, 0::int))" using assms(1) by simp
  next
    fix x and st :: "session \<times> clock \<times> int"
    assume "x \<in> set ?xs" and p: "P (fst st)"
    then have "x \<in> set (notifications (view (autoflushed s)))"
      by (simp add: retryable_notifications_def)
    then show "P (fst (snd (retry_try x st)))" using p by (rule assms(2))
  qed
  then show ?thesis by (simp add: retry_unfold Let_def)
qed

lemma notification_try_unfold:
  assumes "fst (schedule_upcoming_reminders s (clock w)) = Inr k1"
    and "fst (process_scheduled_notifications
               (fst (snd (schedule_upcoming_reminders s (clock w))))
               (snd (snd (schedule_upcoming_reminders s (clock w))))) = Inr k2"
    and "fst (retry_failed_notifications
               (fst (snd (process_scheduled_notifications
                            (fst (snd (schedule_upcoming_reminders s (clock w))))
                            (snd (snd (schedule_upcoming_reminders s (clock w)))))))
               (snd (snd (process_scheduled_notifications
                            (fst (snd (schedule_upcoming_reminders s (clock w))))
                            (snd (snd (schedule_upcoming_reminders s (clock w)))))))) = Inr k3"
  shows "notification_try s w =
     (Inr (), record_success ''NotificationAgent'' (k2 + k3)
        (fst (snd (retry_failed_notifications
               (fst (snd (process_scheduled_notifications
                            (fst (snd (schedule_upcoming_reminders s (clock w))))
                            (snd (snd (schedule_upcoming_reminders s (clock w)))))))
               (snd (snd (process_scheduled_notifications
                            (fst (snd (schedule_upcoming_reminders s (clock w))))
                            (snd (snd (schedule_upcoming_reminders s (clock w))))))))))
        (w\<lparr>clock := snd (snd (retry_failed_notifications
               (fst (snd (process_scheduled_notifications
                            (fst (snd (schedule_upcoming_reminders s (clock w))))
                            (snd (snd (schedule_upcoming_reminders s (clock w)))))))
               (snd (snd (process_scheduled_notifications
                            (fst (snd (schedule_upcoming_reminders s (clock w))))
                            (snd (snd (schedule_upcoming_reminders s (clock w)))))))))\<rparr>))"
  by (simp add: notification_try_def case_prod_beta assms)

text \<open>
  The sessions after the three steps of a cycle, and what the cycle commits: none of the
  steps raises, so the cycle ends in \<open>record_success\<close>.
\<close>

lemma notification_cycle:
  assumes "P (SessionLocal af w)"
    and "\<And>s. P s \<Longrightarrow> P (autoflushed s)"
    and "\<And>t h st now. P (fst st) \<Longrightarrow> P (fst (snd (reminder_step now t h st)))"
    and "\<And>s x (st :: session \<times> int) now. P s \<Longrightarrow> x \<in> set (notifications (view s))
           \<Longrightarrow> P (fst st) \<Longrightarrow> P (fst (snd (send_try now x st)))"
    and "\<And>s x (st :: session \<times> clock \<times> int). P s \<Longrightarrow> x \<in> set (notifications (view s))
           \<Longrightarrow> P (fst st) \<Longrightarrow> P (fst (snd (retry_try x st)))"
  shows "\<exists>s3. P s3
           \<and> tasks (database (snd (NotificationAgent_run af w))) = tasks (view s3)
           \<and> notifications (database (snd (NotificationAgent_run af w))) = all_notifications s3
           \<and> audit_logs (database (snd (NotificationAgent_run af w))) = all_audit_logs s3"
proof -
  let ?s0 = "SessionLocal af w"
  let ?A = "schedule_upcoming_reminders ?s0 (clock w)"
  let ?s1 = "fst (snd ?A)" let ?c1 = "snd (snd ?A)"
  let ?B = "process_scheduled_notifications ?s1 ?c1"
  let ?s2 = "fst (snd ?B)" let ?c2 = "snd (snd ?B)"
  let ?C = "retry_failed_notifications ?s2 ?c2"
  let ?s3 = "fst (snd ?C)" let ?c3 = "snd (snd ?C)"
  have a0: "P (autoflushed ?s0)" using assms(1,2) by blast
  obtain k1 where k1: "fst ?A = Inr k1"
    using schedule_preserves(1)[where P = "\<lambda>s. True"] by blast
  have p1: "P ?s1" by (rule schedule_preserves(2)[where P = P, OF a0 assms(3)])
  obtain k2 where k2: "fst ?B = Inr k2"
    using process_unfold[of ?s1 ?c1] for_loop_total[where P = "\<lambda>st. True"
        and body = "send_try (fst (utcnow ?c1))"]
    by (fastforce simp: Let_def)
  have p2: "P ?s2"
    by (rule process_preserves[where P = P, OF assms(2)[OF p1]])
       (rule assms(4)[OF assms(2)[OF p1]])
  obtain k3 where k3: "fst ?C = Inr k3"
    using retry_unfold[of ?s2 ?c2] for_loop_total[where P = "\<lambda>st. True" and body = retry_try]
    by (fastforce simp: Let_def)
  have p3: "P ?s3"
    by (rule retry_preserves[where P = P, OF assms(2)[OF p2]])
       (rule assms(5)[OF assms(2)[OF p2]])
  have "snd (NotificationAgent_run af w)
          = snd (record_success ''NotificationAgent'' (k2 + k3) ?s3 (w\<lparr>clock := ?c3\<rparr>))"
    by (simp add: NotificationAgent_run_def agent_run_def notification_try_unfold[OF k1 k2 k3]
        case_prod_beta)
  then show ?thesis using p3 by (intro exI[of _ ?s3]) (simp add: record_success_database)
qed

lemma notification_cycle_row:
  assumes "filter (\<lambda>x. Notification.id x = i) (notifications (database w)) = [r]"
  shows "\<exists>r'. filter (\<lambda>x. Notification.id x = i)
                (notifications (database (snd (NotificationAgent_run af w)))) = [r']
             \<and> (if Notification.status r = NPENDING
                    \<and> (case scheduled_at r of None \<Rightarrow> False
                        | Some t \<Rightarrow> t \<le> fst (utcnow (snd (utcnow (clock w)))))
                 then r' = r\<lparr>Notification.status := SENT,
                              sent_at := Some (fst (utcnow (snd (utcnow (clock w)))))\<rparr>
                 else if Notification.status r = FAILED \<and> retry_count r < max_retries r
                 then \<exists>ts. r' = r\<lparr>Notification.status := SENT, sent_at := Some ts\<rparr>
                 else r' = r)"
proof -
  let ?s0 = "SessionLocal af w"
  let ?A = "schedule_upcoming_reminders ?s0 (clock w)"
  let ?s1 = "fst (snd ?A)" let ?c1 = "snd (snd ?A)"
  let ?B = "process_scheduled_notifications ?s1 ?c1"
  let ?s2 = "fst (snd ?B)" let ?c2 = "snd (snd ?B)"
  let ?C = "retry_failed_notifications ?s2 ?c2"
  let ?s3 = "fst (snd ?C)" let ?c3 = "snd (snd ?C)"
  let ?now = "fst (utcnow (snd (utcnow (clock w))))"
  let ?due = "Notification.status r = NPENDING
              \<and> (case scheduled_at r of None \<Rightarrow> False | Some t \<Rightarrow> t \<le> ?now)"
  let ?r2 = "if ?due then r\<lparr>Notification.status := SENT, sent_at := Some ?now\<rparr> else r"
  have t0: "tracks i r ?s0" using assms by (simp add: tracks_def)
  obtain k1 where k1: "fst ?A = Inr k1"
    using schedule_preserves(1)[where P = "\<lambda>s. True"] by blast
  have t1: "tracks i r ?s1"
    by (rule schedule_preserves(2)[where P = "tracks i r", OF tracks_autoflushed[OF t0]
          reminder_step_tracks])
  have c1: "?c1 = snd (utcnow (clock w))"
    by (rule schedule_preserves(3)[where P = "\<lambda>s. True"]) simp_all
  obtain k2 where k2: "fst ?B = Inr k2" using process_row(1)[OF t1] by blast
  have t2: "tracks i ?r2 ?s2" using process_row(2)[OF t1, of ?c1] by (simp only: c1)
  obtain k3 where k3: "fst ?C = Inr k3" using retry_row(1)[OF t2] by blast
  obtain r3 where r3: "if Notification.status ?r2 = FAILED \<and> retry_count ?r2 < max_retries ?r2
                       then \<exists>ts. r3 = ?r2\<lparr>Notification.status := SENT, sent_at := Some ts\<rparr>
                       else r3 = ?r2"
    and t3: "tracks i r3 ?s3"
    using retry_row(2)[OF t2, of ?c2] by blast
  have run: "snd (NotificationAgent_run af w)
          = snd (record_success ''NotificationAgent'' (k2 + k3) ?s3 (w\<lparr>clock := ?c3\<rparr>))"
    by (simp add: NotificationAgent_run_def agent_run_def notification_try_unfold[OF k1 k2 k3]
        case_prod_beta)
  have row: "filter (\<lambda>x. Notification.id x = i)
               (notifications (database (snd (NotificationAgent_run af w)))) = [r3]"
    using tracks_database[OF t3] by (simp add: run record_success_database)
  have "if ?due then r3 = r\<lparr>Notification.status := SENT, sent_at := Some ?now\<rparr>
        else if Notification.status r = FAILED \<and> retry_count r < max_retries r
        then \<exists>ts. r3 = r\<lparr>Notification.status := SENT, sent_at := Some ts\<rparr>
        else r3 = r"
  proof (cases ?due)
    case True
    then have e: "?r2 = r\<lparr>Notification.status := SENT, sent_at := Some ?now\<rparr>"
      by (rule if_P)
    have n: "\<not> (Notification.status (r\<lparr>Notification.status := SENT, sent_at := Some ?now\<rparr>) = FAILED
              \<and> retry_count (r\<lparr>Notification.status := SENT, sent_at := Some ?now\<rparr>)
                  < max_retries (r\<lparr>Notification.status := SENT, sent_at := Some ?now\<rparr>))"
      by simp
    have "r3 = r\<lparr>Notification.status := SENT, sent_at := Some ?now\<rparr>"
      using r3 unfolding e if_not_P[OF n] .
    then show ?thesis by (subst if_P[OF True])
  next
    case False
    then have e: "?r2 = r" by (rule if_not_P)
    have "if Notification.status r = FAILED \<and> retry_count r < max_retries r
          then \<exists>ts. r3 = r\<lparr>Notification.status := SENT, sent_at := Some ts\<rparr>
          else r3 = r"
      using r3 unfolding e .
    then show ?thesis by (subst if_not_P[OF False])
  qed
  with row show ?thesis by (intro exI[of _ r3] conjI)
qed

lemma notification_cycle_no_exception: "fst (NotificationAgent_run af w) = None"
  by (simp add: NotificationAgent_run_def agent_run_no_exception)

lemma notification_cycle_audit:
  "filter (\<lambda>a. action a = ''notification_permanently_failed'')
     (audit_logs (database (snd (NotificationAgent_run af w))))
   = filter (\<lambda>a. action a = ''notification_permanently_failed'') (audit_logs (database w))"
proof -
  let ?F = "filter (\<lambda>a. action a = ''notification_permanently_failed'')"
  let ?P = "\<lambda>s. ?F (all_audit_logs s) = ?F (audit_logs (database w))"
  have "\<exists>s3. ?P s3
           \<and> tasks (database (snd (NotificationAgent_run af w))) = tasks (view s3)
           \<and> notifications (database (snd (NotificationAgent_run af w))) = all_notifications s3
           \<and> audit_logs (database (snd (NotificationAgent_run af w))) = all_audit_logs s3"
  proof (rule notification_cycle[where P = ?P])
    show "?P (SessionLocal af w)" by simp
  next
    fix s assume "?P s" then show "?P (autoflushed s)" by simp
  next
    fix t h and st :: "session \<times> int" and now
    assume "?P (fst st)"
    then show "?P (fst (snd (reminder_step now t h st)))"
      by (auto simp: reminder_step_def Let_def create_reminder_session
          split: option.split sum.split)
  next
    fix s x and st :: "session \<times> int" and now
    assume "?P (fst st)"
    then show "?P (fst (snd (send_try now x st)))" by (simp add: send_try_def)
  next
    fix s x and st :: "session \<times> clock \<times> int"
    assume "?P (fst st)"
    then show "?P (fst (snd (retry_try x st)))"
      by (simp add: retry_try_def Let_def new_audit_log_def)
  qed
  then show ?thesis by auto
qed

text \<open>
  Claim C10. In the dispatcher as written the send step cannot fail. The \<open>try\<close> blocks
  of both loops return normally for every notification and state, so the two \<open>except\<close>
  blocks never run. In one cycle, a notification that is the only row with its key
  becomes \<open>sent\<close> if it is pending with \<open>scheduled_at\<close> not after the reading of the
  clock in \<open>process_scheduled_notifications\<close> (the second reading of the cycle), or if
  it is failed with \<open>retry_count < max_retries\<close>; otherwise it is left as it is. Its
  retry counter is not written, the cycle raises nothing and adds no audit entry
  \<open>notification_permanently_failed\<close>.
\<close>

theorem dispatcher_send_cannot_fail:
  assumes "filter (\<lambda>x. Notification.id x = Notification.id r) (notifications (database w)) = [r]"
  shows "fst (send_try now n (st :: session \<times> int)) = Inr ()
     \<and> fst (retry_try n (st' :: session \<times> clock \<times> int)) = Inr ()
     \<and> try_except (send_try now n) (send_except n) st = send_try now n st
     \<and> try_except (retry_try n) (retry_except n) st' = retry_try n st'
     \<and> fst (NotificationAgent_run af w) = None
     \<and> (\<exists>r'. filter (\<lambda>x. Notification.id x = Notification.id r)
                 (notifications (database (snd (NotificationAgent_run af w)))) = [r']
              \<and> (if Notification.status r = NPENDING
                     \<and> (case scheduled_at r of None \<Rightarrow> False
                         | Some t \<Rightarrow> t \<le> fst (utcnow (snd (utcnow (clock w)))))
                  then r' = r\<lparr>Notification.status := SENT,
                               sent_at := Some (fst (utcnow (snd (utcnow (clock w)))))\<rparr>
                  else if Notification.status r = FAILED \<and> retry_count r < max_retries r
                  then \<exists>ts. r' = r\<lparr>Notification.status := SENT, sent_at := Some ts\<rparr>
                  else r' = r))
     \<and> filter (\<lambda>a. action a = ''notification_permanently_failed'')
          (audit_logs (database (snd (NotificationAgent_run af w))))
        = filter (\<lambda>a. action a = ''notification_permanently_failed'') (audit_logs (database w))"
  using notification_cycle_row[OF assms, of af] notification_cycle_audit[of af w]
    notification_cycle_no_exception[of af w]
  by (simp only: send_try_returns retry_try_returns try_send try_retry simp_thms)

theorem dispatcher_send_cannot_fail_witness:
  "fst (NotificationAgent_run False dispatch_world) = None
   \<and> (\<exists>r'. filter (\<lambda>x. Notification.id x = 1)
               (notifications (database (snd (NotificationAgent_run False dispatch_world))))
             = [r']
           \<and> r' = pending_note\<lparr>Notification.status := SENT, sent_at := Some (100 * hour)\<rparr>)
   \<and> filter (\<lambda>a. action a = ''notification_permanently_failed'')
        (audit_logs (database (snd (NotificationAgent_run False dispatch_world)))) = []"
proof -
  have h: "filter (\<lambda>x. Notification.id x = Notification.id pending_note)
             (notifications (database dispatch_world)) = [pending_note]"
    by (simp add: dispatch_world_def pending_note_def failed_note_def exhausted_note_def)
  have e: "Notification.id pending_note = 1" "Notification.status pending_note = NPENDING"
    "scheduled_at pending_note = Some (99 * hour)"
    "fst (utcnow (snd (utcnow (clock dispatch_world)))) = 100 * hour"
    "audit_logs (database dispatch_world) = []"
    by (simp_all add: pending_note_def dispatch_world_def utcnow_def)
  show ?thesis
    using dispatcher_send_cannot_fail[OF h, of _ _ _ _ False] e by (simp add: hour_def)
qed

section \<open>The retry cap\<close>

lemma save_notification_set:
  "set (all_notifications (save_notification x' s)) \<subseteq> insert x' (set (all_notifications s))"
  by (auto simp: all_notifications_def)

lemma create_reminder_counts:
  "fst (create_reminder t h s) = Inr (Some n) \<Longrightarrow> retry_count n = 0 \<and> max_retries n = 3"
  by (auto simp: create_reminder_def Let_def new_notification_def split: option.splits)

lemma reminder_step_cap:
  assumes "\<forall>n\<in>set (all_notifications (fst st)). retry_count n \<le> max_retries n"
  shows "\<forall>n\<in>set (all_notifications (fst (snd (reminder_step now t h st)))).
           retry_count n \<le> max_retries n"
proof (cases "fst (create_reminder t h (fst st))")
  case (Inl e)
  then show ?thesis using assms
    by (auto simp: reminder_step_def Let_def create_reminder_session split: option.split)
next
  case (Inr res)
  show ?thesis
  proof (cases res)
    case None
    then show ?thesis using assms Inr
      by (auto simp: reminder_step_def Let_def create_reminder_session split: option.split)
  next
    case (Some n)
    then have "retry_count n = 0 \<and> max_retries n = 3"
      using create_reminder_counts[of t h "fst st" n] Inr by simp
    then show ?thesis using assms Inr Some
      by (auto simp: reminder_step_def Let_def create_reminder_session split: option.split)
  qed
qed

lemma send_try_cap:
  assumes "\<forall>n\<in>set (all_notifications (fst st)). retry_count n \<le> max_retries n"
    and "retry_count x \<le> max_retries x"
  shows "\<forall>n\<in>set (all_notifications (fst (snd (send_try now x st)))).
           retry_count n \<le> max_retries n"
proof
  fix n
  assume "n \<in> set (all_notifications (fst (snd (send_try now x st))))"
  then have "n = x\<lparr>Notification.status := SENT, sent_at := Some now\<rparr>
             \<or> n \<in> set (all_notifications (fst st))"
    using save_notification_set[of "x\<lparr>Notification.status := SENT, sent_at := Some now\<rparr>" "fst st"]
    by (auto simp: send_try_def)
  then show "retry_count n \<le> max_retries n" using assms by auto
qed

lemma retry_try_cap:
  assumes "\<forall>n\<in>set (all_notifications (fst st)). retry_count n \<le> max_retries n"
    and "retry_count x \<le> max_retries x"
  shows "\<forall>n\<in>set (all_notifications (fst (snd (retry_try x st)))).
           retry_count n \<le> max_retries n"
proof
  fix n
  let ?x' = "x\<lparr>Notification.status := SENT, sent_at := Some (fst (utcnow (fst (snd st))))\<rparr>"
  assume "n \<in> set (all_notifications (fst (snd (retry_try x st))))"
  then have "n = ?x' \<or> n \<in> set (all_notifications (fst st))"
    using save_notification_set[of ?x' "fst st"]
    by (auto simp: retry_try_def Let_def)
  then show "retry_count n \<le> max_retries n" using assms by auto
qed

lemma view_in_all: "x \<in> set (notifications (view s)) \<Longrightarrow> x \<in> set (all_notifications s)"
  by (simp add: all_notifications_def)

lemma notification_cycle_cap:
  assumes "\<forall>n\<in>set (notifications (database w)). retry_count n \<le> max_retries n"
  shows "\<forall>n\<in>set (notifications (database (snd (NotificationAgent_run af w)))).
           retry_count n \<le> max_retries n"
proof -
  let ?P = "\<lambda>s. \<forall>n\<in>set (all_notifications s). retry_count n \<le> max_retries n"
  have "\<exists>s3. ?P s3
           \<and> tasks (database (snd (NotificationAgent_run af w))) = tasks (view s3)
           \<and> notifications (database (snd (NotificationAgent_run af w))) = all_notifications s3
           \<and> audit_logs (database (snd (NotificationAgent_run af w))) = all_audit_logs s3"
  proof (rule notification_cycle[where P = ?P])
    show "?P (SessionLocal af w)" using assms by simp
  next
    fix s assume "?P s" then show "?P (autoflushed s)" by simp
  next
    fix t h and st :: "session \<times> int" and now
    assume "?P (fst st)"
    then show "?P (fst (snd (reminder_step now t h st)))" by (rule reminder_step_cap)
  next
    fix s x and st :: "session \<times> int" and now
    assume s: "?P s" and x: "x \<in> set (notifications (view s))" and p: "?P (fst st)"
    have "retry_count x \<le> max_retries x" using s view_in_all[OF x] by blast
    with p show "?P (fst (snd (send_try now x st)))" by (rule send_try_cap)
  next
    fix s x and st :: "session \<times> clock \<times> int"
    assume s: "?P s" and x: "x \<in> set (notifications (view s))" and p: "?P (fst st)"
    have "retry_count x \<le> max_retries x" using s view_in_all[OF x] by blast
    with p show "?P (fst (snd (retry_try x st)))" by (rule retry_try_cap)
  qed
  then obtain s3 where "?P s3"
    "notifications (database (snd (NotificationAgent_run af w))) = all_notifications s3"
    by blast
  then show ?thesis by simp
qed

lemma terminal_row_cycle:
  assumes "filter (\<lambda>x. Notification.id x = Notification.id r) (notifications (database w)) = [r]"
    and "Notification.status r = FAILED" and "retry_count r = max_retries r"
  shows "filter (\<lambda>x. Notification.id x = Notification.id r)
           (notifications (database (snd (NotificationAgent_run af w)))) = [r]"
proof -
  have n1: "\<not> (Notification.status r = NPENDING
                \<and> (case scheduled_at r of None \<Rightarrow> False
                    | Some t \<Rightarrow> t \<le> fst (utcnow (snd (utcnow (clock w))))))"
    using assms(2) by simp
  have n2: "\<not> (Notification.status r = FAILED \<and> retry_count r < max_retries r)"
    using assms(3) by simp
  obtain r' where a: "filter (\<lambda>x. Notification.id x = Notification.id r)
                        (notifications (database (snd (NotificationAgent_run af w)))) = [r']"
    and b: "if Notification.status r = NPENDING
                    \<and> (case scheduled_at r of None \<Rightarrow> False
                        | Some t \<Rightarrow> t \<le> fst (utcnow (snd (utcnow (clock w)))))
                 then r' = r\<lparr>Notification.status := SENT,
                              sent_at := Some (fst (utcnow (snd (utcnow (clock w)))))\<rparr>
                 else if Notification.status r = FAILED \<and> retry_count r < max_retries r
                 then \<exists>ts. r' = r\<lparr>Notification.status := SENT, sent_at := Some ts\<rparr>
                 else r' = r"
    using notification_cycle_row[OF assms(1), of af] by blast
  from b have "r' = r" unfolding if_not_P[OF n1] if_not_P[OF n2] .
  with a show ?thesis by simp
qed

text \<open>
  Claim C3. Take a store in which no notification has more retries than its cap (every
  notification is created with 0 of 3). After any number of dispatcher cycles, at any
  instants, this still holds of every notification, the new reminders included; and a
  notification that is failed with \<open>retry_count = max_retries\<close> (and is the only row with
  its key) is the same row after those cycles: no further transition.
\<close>

theorem retry_cap:
  assumes "\<forall>n\<in>set (notifications (database w)). retry_count n \<le> max_retries n"
  shows "(\<forall>n\<in>set (notifications (database (dispatcher_cycles k af w))).
            retry_count n \<le> max_retries n)
     \<and> (\<forall>r. filter (\<lambda>x. Notification.id x = Notification.id r) (notifications (database w)) = [r]
              \<and> Notification.status r = FAILED \<and> retry_count r = max_retries r
           \<longrightarrow> filter (\<lambda>x. Notification.id x = Notification.id r)
                 (notifications (database (dispatcher_cycles k af w))) = [r])"
  using assms
proof (induction k arbitrary: w)
  case 0
  then show ?case by simp
next
  case (Suc k)
  let ?w = "snd (NotificationAgent_run af w)"
  have c: "\<forall>n\<in>set (notifications (database ?w)). retry_count n \<le> max_retries n"
    using Suc.prems by (rule notification_cycle_cap)
  note ih = Suc.IH[OF c]
  have "\<forall>n\<in>set (notifications (database (dispatcher_cycles (Suc k) af w))).
            retry_count n \<le> max_retries n"
    using ih by simp
  moreover have "filter (\<lambda>x. Notification.id x = Notification.id r)
                   (notifications (database (dispatcher_cycles (Suc k) af w))) = [r]"
    if r: "filter (\<lambda>x. Notification.id x = Notification.id r) (notifications (database w)) = [r]"
      "Notification.status r = FAILED" "retry_count r = max_retries r" for r
  proof -
    have "filter (\<lambda>x. Notification.id x = Notification.id r) (notifications (database ?w)) = [r]"
      using r by (rule terminal_row_cycle)
    then have "filter (\<lambda>x. Notification.id x = Notification.id r)
                 (notifications (database (dispatcher_cycles k af ?w))) = [r]"
      using ih[THEN conjunct2, THEN spec, of r] r(2,3) by simp
    then show ?thesis by simp
  qed
  ultimately show ?case by blast
qed

theorem retry_cap_witness:
  "list_all (\<lambda>n. retry_count n \<le> max_retries n)
     (notifications (database (dispatcher_cycles 3 False dispatch_world)))
   \<and> filter (\<lambda>x. Notification.id x = 3)
        (notifications (database (dispatcher_cycles 3 False dispatch_world)))
       = [exhausted_note]
   \<and> Notification.status exhausted_note = FAILED
   \<and> retry_count exhausted_note = 3 \<and> max_retries exhausted_note = 3"
proof -
  have h: "\<forall>n\<in>set (notifications (database dispatch_world)). retry_count n \<le> max_retries n"
    by (simp add: dispatch_world_def pending_note_def failed_note_def exhausted_note_def)
  have g: "filter (\<lambda>x. Notification.id x = Notification.id exhausted_note)
             (notifications (database dispatch_world)) = [exhausted_note]
           \<and> Notification.status exhausted_note = FAILED
           \<and> retry_count exhausted_note = max_retries exhausted_note"
    by (simp add: dispatch_world_def pending_note_def failed_note_def exhausted_note_def)
  note t = retry_cap[OF h, of 3 False]
  have a: "list_all (\<lambda>n. retry_count n \<le> max_retries n)
             (notifications (database (dispatcher_cycles 3 False dispatch_world)))"
    using t[THEN conjunct1] by (simp add: list_all_iff)
  have b: "filter (\<lambda>x. Notification.id x = Notification.id exhausted_note)
             (notifications (database (dispatcher_cycles 3 False dispatch_world)))
           = [exhausted_note]"
    using t[THEN conjunct2, THEN spec, of exhausted_note] g by (rule mp)
  have e: "Notification.id exhausted_note = 3" "Notification.status exhausted_note = FAILED"
    "retry_count exhausted_note = 3" "max_retries exhausted_note = 3"
    by (simp_all add: exhausted_note_def)
  show ?thesis using a b e by simp
qed

section \<open>Scheduling reminders\<close>

lemma create_reminder_eq:
  assumes "due_date t = Some due"
  shows "create_reminder t h s =
     (if has_reminder t h (notifications (view (autoflushed s))) then Inr None
      else Inr (Some (reminder_of t h due)), autoflushed s)"
  using assms
  by (simp add: create_reminder_def has_reminder_def reminder_of_def Let_def split: option.split)

lemma reminder_step_out:
  assumes "due_date t = Some due" and "\<not> in_band now due h"
  shows "reminder_step now t h st = (Inr (), st)"
  using assms by (auto simp: reminder_step_def in_band_def Let_def)

lemma reminder_step_in:
  assumes "due_date t = Some due" and "in_band now due h"
  shows "reminder_step now t h st =
     (Inr (),
      if has_reminder t h (notifications (view (autoflushed (fst st))))
      then autoflushed (fst st)
      else add_notification (reminder_of t h due) (autoflushed (fst st)),
      if has_reminder t h (notifications (view (autoflushed (fst st))))
      then snd st else snd st + 1)"
proof -
  have b: "due - now \<le> h * hour \<and> (h - 1) * hour < due - now"
    using assms(2) by (simp add: in_band_def)
  show ?thesis
    by (simp add: reminder_step_def assms(1) create_reminder_eq[OF assms(1)] Let_def b)
qed

lemma bands_disjoint:
  "in_band now due 24 \<Longrightarrow> \<not> in_band now due 8 \<and> \<not> in_band now due 2"
  "in_band now due 8 \<Longrightarrow> \<not> in_band now due 24 \<and> \<not> in_band now due 2"
  "in_band now due 2 \<Longrightarrow> \<not> in_band now due 24 \<and> \<not> in_band now due 8"
  by (simp_all add: in_band_def hour_def)

lemma has_reminder_filter:
  "has_reminder t h ns = has_reminder t h (filter (\<lambda>n. task_id n = Some (Task.id t)) ns)"
  unfolding has_reminder_def by (induction ns) auto

lemma about_append [simp]: "about t (xs @ ys) = about t xs @ about t ys"
  by (simp add: about_def)

lemma about_reminder_of [simp]:
  "about t [(reminder_of t h due)\<lparr>Notification.id := i\<rparr>] = [reminder_of t h due]"
  by (simp add: about_def reminder_of_def new_notification_def)

lemma about_other:
  "task_id n \<noteq> Some (Task.id t) \<Longrightarrow> about t [n] = []"
  by (simp add: about_def)

lemma quiet_autoflushed: "quiet t V s \<Longrightarrow> quiet t V (autoflushed s)"
  by (simp add: quiet_def autoflushed_def flush_def)

lemma quiet_about:
  "quiet t V s \<Longrightarrow> about t (all_notifications s) = map (\<lambda>n. n\<lparr>Notification.id := 0\<rparr>) V"
  by (simp add: quiet_def about_def all_notifications_def)

lemma quiet_has:
  "quiet t V s \<Longrightarrow> has_reminder t h (notifications (view s)) = has_reminder t h V"
  using has_reminder_filter[of t h "notifications (view s)"] by (simp add: quiet_def)

lemma quiet_add_other:
  "task_id n \<noteq> Some (Task.id t) \<Longrightarrow> quiet t V s \<Longrightarrow> quiet t V (add_notification n s)"
  by (simp add: quiet_def)

lemma reminder_of_task [simp]: "task_id (reminder_of x h due) = Some (Task.id x)"
  by (simp add: reminder_of_def new_notification_def)

lemma other_step_quiet:
  assumes "Task.id x \<noteq> Task.id t" and "due_date x = Some dx" and "quiet t V (fst st)"
  shows "fst (reminder_step now x h st) = Inr ()
         \<and> quiet t V (fst (snd (reminder_step now x h st)))"
proof (cases "in_band now dx h")
  case False
  then show ?thesis using assms(3) by (simp add: reminder_step_out[OF assms(2)])
next
  case True
  have q: "quiet t V (autoflushed (fst st))" using assms(3) by (rule quiet_autoflushed)
  have "quiet t V (add_notification (reminder_of x h dx) (autoflushed (fst st)))"
    by (rule quiet_add_other[OF _ q]) (simp add: assms(1))
  with q show ?thesis by (simp add: reminder_step_in[OF assms(2) True])
qed

lemma other_step_about:
  assumes "Task.id x \<noteq> Task.id t" and "due_date x = Some dx"
  shows "fst (reminder_step now x h st) = Inr ()
         \<and> about t (all_notifications (fst (snd (reminder_step now x h st))))
             = about t (all_notifications (fst st))"
proof (cases "in_band now dx h")
  case False
  then show ?thesis by (simp add: reminder_step_out[OF assms(2)])
next
  case True
  have "about t [(reminder_of x h dx)\<lparr>Notification.id := i\<rparr>] = []" for i
    by (rule about_other) (simp add: assms(1))
  then show ?thesis by (simp add: reminder_step_in[OF assms(2) True])
qed

lemma other_task_quiet:
  fixes st :: "session \<times> int"
  assumes "Task.id x \<noteq> Task.id t" and "due_date x = Some dx" and "quiet t V (fst st)"
  shows "fst (for_loop (reminder_step now x) hs st) = Inr ()
         \<and> quiet t V (fst (snd (for_loop (reminder_step now x) hs st)))"
proof (rule for_loop_total[where P = "\<lambda>st. quiet t V (fst st)"])
  show "quiet t V (fst st)" by (rule assms(3))
next
  fix h and st' :: "session \<times> int"
  assume "quiet t V (fst st')"
  then show "fst (reminder_step now x h st') = Inr ()
             \<and> quiet t V (fst (snd (reminder_step now x h st')))"
    by (rule other_step_quiet[OF assms(1,2)])
qed

lemma other_task_about:
  fixes st :: "session \<times> int"
  assumes "Task.id x \<noteq> Task.id t" and "due_date x = Some dx"
    and "about t (all_notifications (fst st)) = X"
  shows "fst (for_loop (reminder_step now x) hs st) = Inr ()
         \<and> about t (all_notifications (fst (snd (for_loop (reminder_step now x) hs st)))) = X"
proof (rule for_loop_total[where P = "\<lambda>st. about t (all_notifications (fst st)) = X"])
  show "about t (all_notifications (fst st)) = X" by (rule assms(3))
next
  fix h and st' :: "session \<times> int"
  assume "about t (all_notifications (fst st')) = X"
  then show "fst (reminder_step now x h st') = Inr ()
             \<and> about t (all_notifications (fst (snd (reminder_step now x h st')))) = X"
    using other_step_about[OF assms(1,2), of now h st'] by simp
qed

lemma starts_with_append: "starts_with (p @ b) p"
  by (induction p) simp_all

lemma contains_append: "contains (a @ p @ b) p"
proof (induction a)
  case Nil
  show ?case using starts_with_append[of p b] by (cases "p @ b") simp_all
next
  case (Cons c a)
  then show ?case by simp
qed

lemma has_reminder_append:
  "has_reminder t h (xs @ ys) = (has_reminder t h xs \<or> has_reminder t h ys)"
  unfolding has_reminder_def by (induction xs) simp_all

lemma has_reminder_about: "has_reminder t h (about t ns) = has_reminder t h ns"
  unfolding has_reminder_def about_def by (induction ns) simp_all

lemma has_reminder_self: "has_reminder t h [reminder_of t h due]"
proof -
  have "contains ((u @ '': Task '' @ quote @ title t @ quote @ '' is due in '')
                  @ (str_int h @ '' hour'') @ ''s!'') (str_int h @ '' hour'')" for u
    by (rule contains_append)
  then show ?thesis by (simp add: has_reminder_def reminder_of_def new_notification_def)
qed

lemma tracked_step:
  assumes "due_date t = Some due" and "quiet t V (fst st)"
  shows "about t (all_notifications (fst (snd (reminder_step now t h st))))
           = about t (all_notifications (fst st))
             @ (if in_band now due h \<and> \<not> has_reminder t h V then [reminder_of t h due] else [])"
proof (cases "in_band now due h")
  case False
  then show ?thesis by (simp add: reminder_step_out[OF assms(1)])
next
  case True
  have q: "quiet t V (autoflushed (fst st))" using assms(2) by (rule quiet_autoflushed)
  have a: "about t (all_notifications (autoflushed (fst st))) = about t (all_notifications (fst st))"
    by (simp add: quiet_about[OF q] quiet_about[OF assms(2)])
  have b: "about t (all_notifications (add_notification n s))
             = about t (all_notifications s)
               @ about t [n\<lparr>Notification.id :=
                    next_id (map Notification.id (notifications (view s) @ pending_notifications s))\<rparr>]"
    for n s
    by (simp add: all_notifications_def add_notification_def)
  show ?thesis
    by (simp add: reminder_step_in[OF assms(1) True] quiet_has[OF q] True a b)
qed

lemma tracked_task_loop:
  fixes st :: "session \<times> int"
  assumes "due_date t = Some due" and "quiet t V (fst st)"
  shows "fst (for_loop (reminder_step now t) reminder_hours st) = Inr ()
         \<and> about t (all_notifications (fst (snd (for_loop (reminder_step now t) reminder_hours st))))
             = about t (all_notifications (fst st))
               @ concat (map (\<lambda>h. if in_band now due h \<and> \<not> has_reminder t h V
                                    then [reminder_of t h due] else []) reminder_hours)"
proof -
  let ?step = "reminder_step now t"
  have r: "fst (?step h x) = Inr ()" for h x
    by (rule reminder_step_returns) (simp add: assms(1))
  have L: "for_loop ?step reminder_hours st
             = (Inr (), snd (?step 2 (snd (?step 8 (snd (?step 24 st))))))"
    by (simp add: reminder_hours_def for_loop_Inr_Cons[where body = "reminder_step now t"] r
        del: for_loop.simps(2))
  have out: "\<not> in_band now due h \<Longrightarrow> snd (?step h x) = x" for h x
    by (simp add: reminder_step_out[OF assms(1)])
  have E: "about t (all_notifications (fst (snd (?step 2 (snd (?step 8 (snd (?step 24 st))))))))
             = about t (all_notifications (fst st))
               @ concat (map (\<lambda>h. if in_band now due h \<and> \<not> has_reminder t h V
                                    then [reminder_of t h due] else []) reminder_hours)"
  proof (cases "in_band now due 24")
    case True
    then have n: "\<not> in_band now due 8" "\<not> in_band now due 2" using bands_disjoint(1) by blast+
    show ?thesis
      using tracked_step[OF assms, of now 24]
      by (simp add: out[OF n(1)] out[OF n(2)] n True reminder_hours_def)
  next
    case n24: False
    show ?thesis
    proof (cases "in_band now due 8")
      case True
      then have n: "\<not> in_band now due 2" using bands_disjoint(2) by blast
      show ?thesis
        using tracked_step[OF assms, of now 8]
        by (simp add: out[OF n24] out[OF n] n n24 True reminder_hours_def)
    next
      case n8: False
      show ?thesis
        using tracked_step[OF assms, of now 2]
        by (simp add: out[OF n24] out[OF n8] n8 n24 reminder_hours_def)
    qed
  qed
  show ?thesis using E by (simp add: L)
qed

lemma reminder_loop_task:
  fixes st :: "session \<times> int"
  assumes once: "filter (\<lambda>x. Task.id x = Task.id t) ts = [t]"
    and dues: "\<forall>x\<in>set ts. due_date x \<noteq> None"
    and due: "due_date t = Some due"
    and q: "quiet t V (fst st)"
  shows "fst (for_loop (\<lambda>task. for_loop (reminder_step now task) reminder_hours) ts st) = Inr ()
         \<and> about t (all_notifications (fst (snd
               (for_loop (\<lambda>task. for_loop (reminder_step now task) reminder_hours) ts st))))
             = map (\<lambda>n. n\<lparr>Notification.id := 0\<rparr>) V
               @ concat (map (\<lambda>h. if in_band now due h \<and> \<not> has_reminder t h V
                                    then [reminder_of t h due] else []) reminder_hours)"
proof -
  let ?body = "\<lambda>task. for_loop (reminder_step now task) reminder_hours"
  let ?X = "map (\<lambda>n. n\<lparr>Notification.id := 0\<rparr>) V
            @ concat (map (\<lambda>h. if in_band now due h \<and> \<not> has_reminder t h V
                                 then [reminder_of t h due] else []) reminder_hours)"
  obtain pre post where ts: "ts = pre @ t # post"
    and pre: "\<forall>x\<in>set pre. Task.id x \<noteq> Task.id t"
    and post: "\<forall>x\<in>set post. Task.id x \<noteq> Task.id t"
    using filter_single_split[OF once] by blast
  have 1: "fst (for_loop ?body pre st) = Inr ()
           \<and> quiet t V (fst (snd (for_loop ?body pre st)))"
  proof (rule for_loop_total[where P = "\<lambda>st. quiet t V (fst st)"])
    show "quiet t V (fst st)" by (rule q)
  next
    fix x and st' :: "session \<times> int"
    assume x: "x \<in> set pre" and p: "quiet t V (fst st')"
    from x dues ts obtain dx where dx: "due_date x = Some dx" by auto
    from x pre have ne: "Task.id x \<noteq> Task.id t" by blast
    show "fst (?body x st') = Inr () \<and> quiet t V (fst (snd (?body x st')))"
      by (rule other_task_quiet[OF ne dx p])
  qed
  let ?st1 = "snd (for_loop ?body pre st)"
  have q1: "quiet t V (fst ?st1)" using 1 by simp
  have 2: "fst (?body t ?st1) = Inr ()
           \<and> about t (all_notifications (fst (snd (?body t ?st1))))
               = about t (all_notifications (fst ?st1))
                 @ concat (map (\<lambda>h. if in_band now due h \<and> \<not> has_reminder t h V
                                      then [reminder_of t h due] else []) reminder_hours)"
    by (rule tracked_task_loop[OF due q1])
  let ?st2 = "snd (?body t ?st1)"
  have x2: "about t (all_notifications (fst ?st2)) = ?X"
    using 2 by (simp add: quiet_about[OF q1])
  have 3: "fst (for_loop ?body post ?st2) = Inr ()
           \<and> about t (all_notifications (fst (snd (for_loop ?body post ?st2)))) = ?X"
  proof (rule for_loop_total[where P = "\<lambda>st. about t (all_notifications (fst st)) = ?X"])
    show "about t (all_notifications (fst ?st2)) = ?X" by (rule x2)
  next
    fix x and st' :: "session \<times> int"
    assume x: "x \<in> set post" and p: "about t (all_notifications (fst st')) = ?X"
    from x dues ts obtain dx where dx: "due_date x = Some dx" by auto
    from x post have ne: "Task.id x \<noteq> Task.id t" by blast
    show "fst (?body x st') = Inr ()
          \<and> about t (all_notifications (fst (snd (?body x st')))) = ?X"
      by (rule other_task_about[OF ne dx p])
  qed
  have a: "for_loop ?body (pre @ t # post) st = for_loop ?body (t # post) ?st1"
    by (rule for_loop_Inr_append) (simp add: 1)
  have b: "for_loop ?body (t # post) ?st1 = for_loop ?body post ?st2"
    by (rule for_loop_Inr_Cons) (simp add: 2)
  show ?thesis unfolding ts a b by (rule 3)
qed

lemma schedule_result:
  assumes "fst (for_loop (\<lambda>task. for_loop (reminder_step (fst (utcnow c)) task) reminder_hours)
                  (upcoming_tasks (fst (utcnow c)) (view (autoflushed s))) (autoflushed s, 0))
           = Inr ()"
  shows "\<exists>k. fst (schedule_upcoming_reminders s c) = Inr k"
    and "fst (snd (schedule_upcoming_reminders s c))
         = fst (snd (for_loop (\<lambda>task. for_loop (reminder_step (fst (utcnow c)) task) reminder_hours)
                  (upcoming_tasks (fst (utcnow c)) (view (autoflushed s))) (autoflushed s, 0)))"
proof -
  let ?L = "for_loop (\<lambda>task. for_loop (reminder_step (fst (utcnow c)) task) reminder_hours)
              (upcoming_tasks (fst (utcnow c)) (view (autoflushed s))) (autoflushed s, 0)"
  obtain s1 k where L: "?L = (Inr (), s1, k)" using assms by (cases ?L) auto
  show "\<exists>k. fst (schedule_upcoming_reminders s c) = Inr k"
    by (simp add: schedule_upcoming_reminders_def Let_def L)
  show "fst (snd (schedule_upcoming_reminders s c)) = fst (snd ?L)"
    by (simp add: schedule_upcoming_reminders_def Let_def L)
qed

text \<open>
  One pass over a fresh session, seen from one task: what is added for it, and that the
  existence test succeeds afterwards for the offset that applies.
\<close>

lemma reminder_pass:
  assumes "filter (\<lambda>x. Task.id x = Task.id t) (tasks (database w)) = [t]"
    and "Task.status t = PENDING \<or> Task.status t = IN_PROGRESS"
    and "due_date t = Some due"
    and "fst (utcnow (clock w)) < due" and "due \<le> fst (utcnow (clock w)) + 25 * hour"
  shows "(\<exists>k. fst (schedule_upcoming_reminders (SessionLocal af w) (clock w)) = Inr k)
         \<and> about t (all_notifications
                      (fst (snd (schedule_upcoming_reminders (SessionLocal af w) (clock w)))))
             = about t (notifications (database w))
               @ concat (map (\<lambda>h. if in_band (fst (utcnow (clock w))) due h
                                       \<and> \<not> has_reminder t h (notifications (database w))
                                    then [reminder_of t h due] else []) reminder_hours)
         \<and> (\<forall>h\<in>set reminder_hours.
               in_band (fst (utcnow (clock w))) due h \<longrightarrow>
               has_reminder t h
                 (all_notifications
                    (fst (snd (schedule_upcoming_reminders (SessionLocal af w) (clock w))))))"
proof -
  let ?now = "fst (utcnow (clock w))"
  let ?ts = "upcoming_tasks ?now (database w)"
  let ?V = "filter (\<lambda>n. task_id n = Some (Task.id t)) (notifications (database w))"
  let ?L = "for_loop (\<lambda>task. for_loop (reminder_step ?now task) reminder_hours) ?ts
              (SessionLocal af w, 0)"
  let ?S = "schedule_upcoming_reminders (SessionLocal af w) (clock w)"
  let ?new = "\<lambda>V. concat (map (\<lambda>h. if in_band ?now due h \<and> \<not> has_reminder t h V
                                    then [reminder_of t h due] else []) reminder_hours)"
  have sel: "filter (\<lambda>t. Task.status t \<in> {PENDING, IN_PROGRESS}
                 \<and> (case due_date t of
                       None \<Rightarrow> False
                     | Some due \<Rightarrow>
                         ?now < due
                         \<and> due \<le> ?now + (fold max (tl reminder_hours) (hd reminder_hours) + 1)
                                         * hour)) [t] = [t]"
    using assms(2-5) by (auto simp: reminder_hours_def)
  have f: "filter (\<lambda>x. Task.id x = Task.id t) ?ts = [t]"
    unfolding upcoming_tasks_def
    by (subst filter_swap) (simp only: assms(1) sel)
  have d: "\<forall>x\<in>set ?ts. due_date x \<noteq> None" using upcoming_tasks_due by blast
  have q: "quiet t ?V (fst (SessionLocal af w, 0::int))" by (simp add: quiet_def)
  have l: "fst ?L = Inr ()
           \<and> about t (all_notifications (fst (snd ?L)))
               = map (\<lambda>n. n\<lparr>Notification.id := 0\<rparr>) ?V @ ?new ?V"
    by (rule reminder_loop_task[OF f d assms(3) q])
  have l': "fst (for_loop (\<lambda>task. for_loop (reminder_step ?now task) reminder_hours)
                  (upcoming_tasks ?now (view (autoflushed (SessionLocal af w))))
                  (autoflushed (SessionLocal af w), 0)) = Inr ()"
    using l by simp
  have r: "\<exists>k. fst ?S = Inr k" by (rule schedule_result(1)[OF l'])
  have s: "fst (snd ?S) = fst (snd ?L)" using schedule_result(2)[OF l'] by simp
  have hv: "has_reminder t h ?V = has_reminder t h (notifications (database w))" for h
    by (rule has_reminder_filter[symmetric])
  have e: "about t (all_notifications (fst (snd ?S)))
           = about t (notifications (database w)) @ ?new (notifications (database w))"
    using l by (simp add: s hv about_def)
  have h: "has_reminder t h (all_notifications (fst (snd ?S)))"
    if "h \<in> set reminder_hours" and "in_band ?now due h" for h
  proof -
    have "has_reminder t h (about t (all_notifications (fst (snd ?S))))"
    proof (cases "has_reminder t h (notifications (database w))")
      case True
      then show ?thesis by (simp add: e has_reminder_append has_reminder_about)
    next
      case False
      have "has_reminder t h (?new (notifications (database w)))"
        using that False
        by (auto simp: reminder_hours_def has_reminder_append has_reminder_self)
      then show ?thesis by (simp add: e has_reminder_append)
    qed
    then show ?thesis by (simp add: has_reminder_about)
  qed
  show ?thesis using r e h by blast
qed

lemma reminder_step_tasks:
  "tasks (view (fst (snd (reminder_step now t h st)))) = tasks (view (fst st))"
  by (simp add: reminder_step_def Let_def create_reminder_session add_notification_def
      split: option.split sum.split)

lemma schedule_tasks:
  "tasks (view (fst (snd (schedule_upcoming_reminders s c)))) = tasks (view s)"
proof (rule schedule_preserves(2)[where P = "\<lambda>x. tasks (view x) = tasks (view s)"])
  show "tasks (view (autoflushed s)) = tasks (view s)" by simp
next
  fix t h and st :: "session \<times> int" and now
  assume "tasks (view (fst st)) = tasks (view s)"
  then show "tasks (view (fst (snd (reminder_step now t h st)))) = tasks (view s)"
    by (simp only: reminder_step_tasks)
qed

lemma in_band_only:
  assumes "h \<in> set reminder_hours" and "in_band now due h" and "has_reminder t h ns"
  shows "concat (map (\<lambda>h. if in_band now due h \<and> \<not> has_reminder t h ns
                             then [reminder_of t h due] else []) reminder_hours) = []"
proof -
  have h: "h = 24 \<or> h = 8 \<or> h = 2" using assms(1) by (simp add: reminder_hours_def)
  have c: "concat (map f reminder_hours) = f 24 @ f 8 @ f 2" for f :: "int \<Rightarrow> Notification list"
    by (simp add: reminder_hours_def)
  from h show ?thesis
  proof (elim disjE)
    assume e: "h = 24"
    then have "\<not> in_band now due 8" "\<not> in_band now due 2" "has_reminder t 24 ns"
      using bands_disjoint(1)[of now due] assms(2,3) by simp_all
    then show ?thesis by (simp add: c)
  next
    assume e: "h = 8"
    then have "\<not> in_band now due 24" "\<not> in_band now due 2" "has_reminder t 8 ns"
      using bands_disjoint(2)[of now due] assms(2,3) by simp_all
    then show ?thesis by (simp add: c)
  next
    assume e: "h = 2"
    then have "\<not> in_band now due 24" "\<not> in_band now due 8" "has_reminder t 2 ns"
      using bands_disjoint(3)[of now due] assms(2,3) by simp_all
    then show ?thesis by (simp add: c)
  qed
qed

lemma in_band_window:
  assumes "h \<in> set reminder_hours" and "in_band now due h"
  shows "now < due" and "due \<le> now + 25 * hour"
  using assms by (auto simp: reminder_hours_def in_band_def hour_def)

text \<open>
  Claim C5, as the code has it. In one pass of \<open>schedule_upcoming_reminders\<close> over a
  fresh session, for a pending or in-progress task (unique primary key) whose due date
  lies in the lookahead window of 25 hours, the pass returns, and the notifications
  that refer to the task are afterwards those of the database followed by one reminder,
  scheduled at the due date minus the offset, for each offset of 24, 8 and 2 hours such
  that the time until the due date lies in the hour that ends at the offset and the
  existence test of \<open>create_reminder\<close> finds no reminder of the task for the offset.
  After the pass the existence test succeeds for every such offset; and a second pass,
  by a fresh session over the committed result and at any clock reading at which the
  same offset applies, adds no notification for the task.
\<close>
theorem reminders_in_band:
  assumes "filter (\<lambda>x. Task.id x = Task.id t) (tasks (database w)) = [t]"
    and "Task.status t = PENDING \<or> Task.status t = IN_PROGRESS"
    and "due_date t = Some due"
    and "fst (utcnow (clock w)) < due" and "due \<le> fst (utcnow (clock w)) + 25 * hour"
  shows "(\<exists>k. fst (schedule_upcoming_reminders (SessionLocal af w) (clock w)) = Inr k)
         \<and> about t (all_notifications
                      (fst (snd (schedule_upcoming_reminders (SessionLocal af w) (clock w)))))
             = about t (notifications (database w))
               @ concat (map (\<lambda>h. if in_band (fst (utcnow (clock w))) due h
                                       \<and> \<not> has_reminder t h (notifications (database w))
                                    then [reminder_of t h due] else []) reminder_hours)
         \<and> (\<forall>h\<in>set reminder_hours.
               in_band (fst (utcnow (clock w))) due h \<longrightarrow>
               has_reminder t h
                 (all_notifications
                    (fst (snd (schedule_upcoming_reminders (SessionLocal af w) (clock w))))))
         \<and> (\<forall>h\<in>set reminder_hours.
               in_band (fst (utcnow (clock w))) due h \<longrightarrow> in_band (fst (utcnow c2)) due h \<longrightarrow>
               about t (all_notifications
                  (fst (snd (schedule_upcoming_reminders
                     (SessionLocal af2
                        ((snd (commit (fst (snd (schedule_upcoming_reminders (SessionLocal af w)
                                                   (clock w)))) w))\<lparr>clock := c2\<rparr>))
                     c2))))
               = about t (all_notifications
                    (fst (snd (schedule_upcoming_reminders (SessionLocal af w) (clock w))))))"
proof -
  let ?s1 = "fst (snd (schedule_upcoming_reminders (SessionLocal af w) (clock w)))"
  let ?w2 = "(snd (commit ?s1 w))\<lparr>clock := c2\<rparr>"
  note first = reminder_pass[OF assms, of af]
  have db2: "notifications (database ?w2) = all_notifications ?s1"
    "tasks (database ?w2) = tasks (database w)"
    "clock ?w2 = c2"
    by (simp_all add: commit_def flush_def all_notifications_def schedule_tasks)
  have again: "about t (all_notifications
                  (fst (snd (schedule_upcoming_reminders (SessionLocal af2 ?w2) c2))))
               = about t (all_notifications ?s1)"
    if h: "h \<in> set reminder_hours" and b1: "in_band (fst (utcnow (clock w))) due h"
      and b2: "in_band (fst (utcnow c2)) due h" for h
  proof -
    have once2: "filter (\<lambda>x. Task.id x = Task.id t) (tasks (database ?w2)) = [t]"
      by (simp only: db2 assms(1))
    have win2: "fst (utcnow (clock ?w2)) < due" "due \<le> fst (utcnow (clock ?w2)) + 25 * hour"
      using in_band_window[OF h b2] by (simp_all only: db2)
    have has: "has_reminder t h (all_notifications ?s1)" using first h b1 by blast
    have none: "concat (map (\<lambda>h. if in_band (fst (utcnow c2)) due h
                                     \<and> \<not> has_reminder t h (all_notifications ?s1)
                                   then [reminder_of t h due] else []) reminder_hours) = []"
      by (rule in_band_only[OF h b2 has])
    have "about t (all_notifications
             (fst (snd (schedule_upcoming_reminders (SessionLocal af2 ?w2) (clock ?w2)))))
          = about t (notifications (database ?w2))
            @ concat (map (\<lambda>h. if in_band (fst (utcnow (clock ?w2))) due h
                                    \<and> \<not> has_reminder t h (notifications (database ?w2))
                                 then [reminder_of t h due] else []) reminder_hours)"
      using reminder_pass[OF once2 assms(2,3) win2, of af2] by blast
    then show ?thesis by (simp only: db2 none append_Nil2)
  qed
  show ?thesis using first again by blast
qed

theorem reminders_in_band_witness:
  "(\<exists>k. fst (schedule_upcoming_reminders (SessionLocal False (reminder_world (8 * hour)))
              (clock (reminder_world (8 * hour)))) = Inr k)
   \<and> about (reminder_task (8 * hour))
        (all_notifications
           (fst (snd (schedule_upcoming_reminders (SessionLocal False (reminder_world (8 * hour)))
                        (clock (reminder_world (8 * hour)))))))
       = [reminder_of (reminder_task (8 * hour)) 8 (8 * hour)]
   \<and> has_reminder (reminder_task (8 * hour)) 8
        (all_notifications
           (fst (snd (schedule_upcoming_reminders (SessionLocal False (reminder_world (8 * hour)))
                        (clock (reminder_world (8 * hour)))))))
   \<and> about (reminder_task (8 * hour))
        (all_notifications
           (fst (snd (schedule_upcoming_reminders
              (SessionLocal False
                 ((snd (commit (fst (snd (schedule_upcoming_reminders
                                            (SessionLocal False (reminder_world (8 * hour)))
                                            (clock (reminder_world (8 * hour))))))
                          (reminder_world (8 * hour))))
                  \<lparr>clock := \<lparr>current = 1800000000, ticks = []\<rparr>\<rparr>))
              \<lparr>current = 1800000000, ticks = []\<rparr>))))
       = [reminder_of (reminder_task (8 * hour)) 8 (8 * hour)]
   \<and> scheduled_at (reminder_of (reminder_task (8 * hour)) 8 (8 * hour)) = Some 0"
proof -
  let ?t = "reminder_task (8 * hour)" and ?w = "reminder_world (8 * hour)"
  let ?c2 = "\<lparr>current = 1800000000, ticks = []\<rparr>"
  have once: "filter (\<lambda>x. Task.id x = Task.id ?t) (tasks (database ?w)) = [?t]"
    by (simp add: reminder_world_def)
  have active: "Task.status ?t = PENDING \<or> Task.status ?t = IN_PROGRESS"
    by (simp add: reminder_task_def)
  have due: "due_date ?t = Some (8 * hour)" by (simp add: reminder_task_def)
  have now: "fst (utcnow (clock ?w)) = 0" by (simp add: reminder_world_def utcnow_def)
  have now2: "fst (utcnow ?c2) = 1800000000" by (simp add: utcnow_def)
  have window: "fst (utcnow (clock ?w)) < 8 * hour"
    "8 * hour \<le> fst (utcnow (clock ?w)) + 25 * hour"
    unfolding now by (simp_all add: hour_def)
  have bands: "\<not> in_band 0 (8 * hour) 24" "in_band 0 (8 * hour) 8" "\<not> in_band 0 (8 * hour) 2"
    "in_band 1800000000 (8 * hour) 8"
    by (simp_all add: in_band_def hour_def)
  have none: "notifications (database ?w) = []" by (simp add: reminder_world_def)
  have sched: "scheduled_at (reminder_of ?t 8 (8 * hour)) = Some 0"
    by (simp add: reminder_of_def new_notification_def)
  show ?thesis
    using reminders_in_band[OF once active due window, of False ?c2 False]
    by (simp add: now now2 bands none sched reminder_hours_def has_reminder_def about_def)
qed

text \<open>
  Claim C5, as stated, fails: a reminder for an offset is created only during the hour
  that ends at the offset. A pending task that is due in five hours lies in the
  lookahead window and is selected, but none of the offsets 24, 8 and 2 applies, and
  neither the pass nor the whole cycle of the agent creates a notification.
\<close>

theorem task_between_offsets_gets_no_reminder:
  "fst (utcnow (clock (reminder_world (5 * hour)))) = 0
   \<and> upcoming_tasks 0 (database (reminder_world (5 * hour))) = [reminder_task (5 * hour)]
   \<and> fst (schedule_upcoming_reminders (SessionLocal False (reminder_world (5 * hour)))
            (clock (reminder_world (5 * hour)))) = Inr 0
   \<and> all_notifications
        (fst (snd (schedule_upcoming_reminders (SessionLocal False (reminder_world (5 * hour)))
                     (clock (reminder_world (5 * hour)))))) = []
   \<and> all_notifications
        (fst (snd (schedule_upcoming_reminders (SessionLocal True (reminder_world (5 * hour)))
                     (clock (reminder_world (5 * hour)))))) = []
   \<and> notifications (database (snd (NotificationAgent_run False (reminder_world (5 * hour))))) = []
   \<and> notifications (database (snd (NotificationAgent_run True (reminder_world (5 * hour))))) = []"
  by code_simp

end
